theory Spec2Isabelle
  imports Main
begin

section \<open>Python strings and exceptions\<close>

text \<open>
  A string is the list of the bytes of its UTF-8 encoding. \<open>str.strip\<close> and the percent
  decoding of \<open>urllib\<close> are modelled on these bytes for every string. \<open>str.lower\<close> maps the
  26 ASCII capitals and leaves every other byte alone: it is \<open>str.lower\<close> on ASCII strings,
  and a host outside ASCII is outside the model.

  An exception is a value carrying the text that \<open>str(e)\<close> returns.
\<close>

datatype exn = Exception string

fun str_of :: "exn \<Rightarrow> string" where
  "str_of (Exception m) = m"

definition ascii_uppercase :: string where
  "ascii_uppercase = ''ABCDEFGHIJKLMNOPQRSTUVWXYZ''"

definition ascii_lowercase :: string where
  "ascii_lowercase = ''abcdefghijklmnopqrstuvwxyz''"

definition digits :: string where
  "digits = ''0123456789''"

definition lower_char :: "char \<Rightarrow> char" where
  "lower_char c = (case map_of (zip ascii_uppercase ascii_lowercase) c of
                     Some l \<Rightarrow> l | None \<Rightarrow> c)"

definition lower :: "string \<Rightarrow> string" where
  "lower s = map lower_char s"

definition lstrip :: "(char \<Rightarrow> bool) \<Rightarrow> string \<Rightarrow> string" where
  "lstrip P s = dropWhile P s"

definition rstrip :: "(char \<Rightarrow> bool) \<Rightarrow> string \<Rightarrow> string" where
  "rstrip P s = rev (dropWhile P (rev s))"

text \<open>
  \<open>str.strip()\<close> removes the white space of Unicode at both ends. On the bytes of a string
  these are the encodings of the code points for which \<open>str.isspace\<close> holds.
\<close>

definition whitespace :: "string list" where
  "whitespace =
     [[CHR 0x09], [CHR 0x0A], [CHR 0x0B], [CHR 0x0C], [CHR 0x0D],
      [CHR 0x1C], [CHR 0x1D], [CHR 0x1E], [CHR 0x1F], [CHR 0x20],
      [CHR 0xC2, CHR 0x85], [CHR 0xC2, CHR 0xA0], [CHR 0xE1, CHR 0x9A, CHR 0x80],
      [CHR 0xE2, CHR 0x80, CHR 0x80], [CHR 0xE2, CHR 0x80, CHR 0x81],
      [CHR 0xE2, CHR 0x80, CHR 0x82], [CHR 0xE2, CHR 0x80, CHR 0x83],
      [CHR 0xE2, CHR 0x80, CHR 0x84], [CHR 0xE2, CHR 0x80, CHR 0x85],
      [CHR 0xE2, CHR 0x80, CHR 0x86], [CHR 0xE2, CHR 0x80, CHR 0x87],
      [CHR 0xE2, CHR 0x80, CHR 0x88], [CHR 0xE2, CHR 0x80, CHR 0x89],
      [CHR 0xE2, CHR 0x80, CHR 0x8A], [CHR 0xE2, CHR 0x80, CHR 0xA8],
      [CHR 0xE2, CHR 0x80, CHR 0xA9], [CHR 0xE2, CHR 0x80, CHR 0xAF],
      [CHR 0xE2, CHR 0x81, CHR 0x9F], [CHR 0xE3, CHR 0x80, CHR 0x80]]"

function strip_left :: "string list \<Rightarrow> string \<Rightarrow> string" where
  "strip_left ws s =
     (case find (\<lambda>w. w \<noteq> [] \<and> take (length w) s = w) ws of
        None \<Rightarrow> s
      | Some w \<Rightarrow> strip_left ws (drop (length w) s))"
  by pat_completeness auto
termination
proof (relation "measure (\<lambda>(ws, s). length s)")
  show "wf (measure (\<lambda>(ws, s). length s))" by simp
next
  fix ws :: "string list" and s w :: string
  assume "find (\<lambda>w. w \<noteq> [] \<and> take (length w) s = w) ws = Some w"
  then have "w \<noteq> []" "take (length w) s = w" by (auto simp: find_Some_iff)
  then have "s \<noteq> []" by auto
  with \<open>w \<noteq> []\<close> show "((ws, drop (length w) s), (ws, s)) \<in> measure (\<lambda>(ws, s). length s)"
    by simp
qed

declare strip_left.simps [simp del]

definition strip :: "string \<Rightarrow> string" where
  "strip s = rev (strip_left (map rev whitespace) (rev (strip_left whitespace s)))"

definition startswith :: "string \<Rightarrow> string \<Rightarrow> bool" where
  "startswith s p \<longleftrightarrow> take (length p) s = p"

text \<open>\<open>s.replace(old, new)\<close> for a non-empty \<open>old\<close>: leftmost occurrences, not overlapping.\<close>

fun replace :: "string \<Rightarrow> string \<Rightarrow> string \<Rightarrow> string" where
  "replace old new [] = []"
| "replace old new (c # s) =
     (if old \<noteq> [] \<and> take (length old) (c # s) = old
      then new @ replace old new (drop (length old) (c # s))
      else c # replace old new s)"

text \<open>\<open>s.partition(c)\<close> at the first \<open>c\<close>: the text before it and the text after it.\<close>

definition before :: "char \<Rightarrow> string \<Rightarrow> string" where
  "before c s = takeWhile (\<lambda>x. x \<noteq> c) s"

definition after :: "char \<Rightarrow> string \<Rightarrow> string" where
  "after c s = drop 1 (dropWhile (\<lambda>x. x \<noteq> c) s)"

fun join :: "string \<Rightarrow> string list \<Rightarrow> string" where
  "join sep [] = []"
| "join sep [x] = x"
| "join sep (x # y # ys) = x @ sep @ join sep (y # ys)"

fun split_on :: "char \<Rightarrow> string \<Rightarrow> string list" where
  "split_on c [] = [[]]"
| "split_on c (x # s) =
     (if x = c then [] # split_on c s
      else (case split_on c s of [] \<Rightarrow> [[x]] | w # ws \<Rightarrow> (x # w) # ws))"

section \<open>urllib.parse\<close>

text \<open>
  \<open>url_normalizer.py\<close> is written on top of \<open>urllib.parse\<close> of the Python standard
  library. The functions below follow CPython 3.11: \<open>urlsplit\<close>, \<open>urlparse\<close>,
  \<open>urlunparse\<close>, \<open>parse_qsl\<close>, \<open>parse_qs\<close>, \<open>unquote_plus\<close>, \<open>quote_plus\<close> and
  \<open>urlencode\<close>. \<open>_checknetloc\<close> returns at once for a host in ASCII; what it does to a host
  outside ASCII (a normalization of Unicode) is outside the model, as \<open>str.lower\<close> is. The
  one part taken as a parameter is the address check of \<open>_check_bracketed_host\<close>, which
  calls the \<open>ipaddress\<close> module: \<open>ip6 h\<close> says that \<open>ipaddress.ip_address\<close> reads \<open>h\<close> as
  an IPv6 address. When it does not, the library raises a \<open>ValueError\<close> whose text depends
  on \<open>h\<close>; the model raises in the same cases, with one text for all of them.
\<close>

definition scheme_chars :: string where
  "scheme_chars = ascii_lowercase @ ascii_uppercase @ digits @ ''+-.''"

definition uses_netloc :: "string list" where
  "uses_netloc = ['''', ''ftp'', ''http'', ''gopher'', ''nntp'', ''telnet'',
                  ''imap'', ''wais'', ''file'', ''mms'', ''https'', ''shttp'',
                  ''snews'', ''prospero'', ''rtsp'', ''rtsps'', ''rtspu'', ''rsync'',
                  ''svn'', ''svn+ssh'', ''sftp'', ''nfs'', ''git'', ''git+ssh'',
                  ''ws'', ''wss'']"

definition uses_params :: "string list" where
  "uses_params = ['''', ''ftp'', ''hdl'', ''prospero'', ''http'', ''imap'',
                  ''https'', ''shttp'', ''rtsp'', ''rtsps'', ''rtspu'', ''sip'',
                  ''sips'', ''mms'', ''sftp'', ''tel'']"

definition C0_CONTROL_OR_SPACE :: "char \<Rightarrow> bool" where
  "C0_CONTROL_OR_SPACE c \<longleftrightarrow> (of_char c :: nat) \<le> 32"

definition UNSAFE_URL_BYTES_TO_REMOVE :: "char list" where
  "UNSAFE_URL_BYTES_TO_REMOVE = [CHR 0x09, CHR 0x0D, CHR 0x0A]"

definition hexdig :: string where
  "hexdig = ''0123456789ABCDEFabcdef''"

record split_result =
  scheme :: string
  netloc :: string
  path :: string
  query :: string
  fragment :: string

record parse_result = split_result +
  params :: string

definition splitnetloc :: "string \<Rightarrow> string \<times> string" where
  "splitnetloc url =
     (let r = drop 2 url
      in (takeWhile (\<lambda>c. c \<notin> set ''/?#'') r, dropWhile (\<lambda>c. c \<notin> set ''/?#'') r))"

definition check_bracketed_host :: "(string \<Rightarrow> bool) \<Rightarrow> string \<Rightarrow> exn option" where
  "check_bracketed_host ip6 hostname =
     (if startswith hostname ''v''
      then (let r = drop 1 hostname; h = takeWhile (\<lambda>c. c \<in> set hexdig) r
            in if h \<noteq> [] \<and> startswith (drop (length h) r) ''.'' \<and> drop (Suc (length h)) r \<noteq> []
               then None else Some (Exception ''IPvFuture address is invalid''))
      else if ip6 hostname then None
      else Some (Exception ''not an IPv6 address''))"

definition urlsplit :: "(string \<Rightarrow> bool) \<Rightarrow> string \<Rightarrow> exn + split_result" where
  "urlsplit ip6 url0 =
     (let url1 = lstrip C0_CONTROL_OR_SPACE url0;
          url2 = filter (\<lambda>c. c \<notin> set UNSAFE_URL_BYTES_TO_REMOVE) url1;
          pre = before (CHR '':'') url2;
          (sch, url3) =
             (if CHR '':'' \<in> set url2 \<and> pre \<noteq> []
                 \<and> hd url2 \<in> set (ascii_lowercase @ ascii_uppercase)
                 \<and> list_all (\<lambda>c. c \<in> set scheme_chars) pre
              then (lower pre, after (CHR '':'') url2) else ('''', url2));
          (nl, url4) = (if take 2 url3 = ''//'' then splitnetloc url3 else ('''', url3))
      in if (CHR ''['' \<in> set nl \<and> CHR '']'' \<notin> set nl) \<or> (CHR '']'' \<in> set nl \<and> CHR ''['' \<notin> set nl)
         then Inl (Exception ''Invalid IPv6 URL'')
         else case (if CHR ''['' \<in> set nl \<and> CHR '']'' \<in> set nl
                    then check_bracketed_host ip6 (before (CHR '']'') (after (CHR ''['') nl))
                    else None) of
           Some e \<Rightarrow> Inl e
         | None \<Rightarrow>
            (let (url5, frag) = (if CHR ''#'' \<in> set url4
                                 then (before (CHR ''#'') url4, after (CHR ''#'') url4)
                                 else (url4, ''''));
                 (url6, qry) = (if CHR ''?'' \<in> set url5
                                then (before (CHR ''?'') url5, after (CHR ''?'') url5)
                                else (url5, ''''))
             in Inr \<lparr>scheme = sch, netloc = nl, path = url6, query = qry, fragment = frag\<rparr>))"

definition splitparams :: "string \<Rightarrow> string \<times> string" where
  "splitparams url =
     (if CHR ''/'' \<in> set url
      then (let seg = rev (takeWhile (\<lambda>c. c \<noteq> CHR ''/'') (rev url));
                dir = take (length url - length seg) url
            in if CHR '';'' \<in> set seg
               then (dir @ before (CHR '';'') seg, after (CHR '';'') seg)
               else (url, ''''))
      else (before (CHR '';'') url, after (CHR '';'') url))"

definition urlparse :: "(string \<Rightarrow> bool) \<Rightarrow> string \<Rightarrow> exn + parse_result" where
  "urlparse ip6 url =
     (case urlsplit ip6 url of
        Inl e \<Rightarrow> Inl e
      | Inr r \<Rightarrow>
         (let (url', ps) = (if scheme r \<in> set uses_params \<and> CHR '';'' \<in> set (path r)
                            then splitparams (path r) else (path r, ''''))
          in Inr \<lparr>scheme = scheme r, netloc = netloc r, path = url', query = query r,
                  fragment = fragment r, params = ps\<rparr>))"

definition urlunsplit :: "string \<times> string \<times> string \<times> string \<times> string \<Rightarrow> string" where
  "urlunsplit t =
     (case t of (sch, nl, url, qry, frag) \<Rightarrow>
        (let url1 = (if nl \<noteq> [] \<or> (sch \<noteq> [] \<and> sch \<in> set uses_netloc) \<or> take 2 url = ''//''
                     then ''//'' @ nl @ (if url \<noteq> [] \<and> take 1 url \<noteq> ''/'' then ''/'' @ url else url)
                     else url);
             url2 = (if sch \<noteq> [] then sch @ '':'' @ url1 else url1);
             url3 = (if qry \<noteq> [] then url2 @ ''?'' @ qry else url2)
         in if frag \<noteq> [] then url3 @ ''#'' @ frag else url3))"

definition urlunparse :: "string \<times> string \<times> string \<times> string \<times> string \<times> string \<Rightarrow> string" where
  "urlunparse t =
     (case t of (sch, nl, url, ps, qry, frag) \<Rightarrow>
        urlunsplit (sch, nl, (if ps \<noteq> [] then url @ '';'' @ ps else url), qry, frag))"

definition ALWAYS_SAFE :: string where
  "ALWAYS_SAFE = ascii_uppercase @ ascii_lowercase @ digits @ ''_.-~''"

definition hex_upper :: string where
  "hex_upper = ''0123456789ABCDEF''"

definition quote_byte :: "char \<Rightarrow> string" where
  "quote_byte c = [CHR ''%'', hex_upper ! ((of_char c :: nat) div 16), hex_upper ! ((of_char c :: nat) mod 16)]"

definition quote_plus :: "string \<Rightarrow> string" where
  "quote_plus s =
     concat (map (\<lambda>c. if c \<in> set ALWAYS_SAFE then [c]
                        else if c = CHR '' '' then ''+'' else quote_byte c) s)"

definition hexval :: "char \<Rightarrow> nat option" where
  "hexval c = map_of (zip hexdig [0, 1, 2, 3, 4, 5, 6, 7, 8, 9, 10, 11, 12, 13, 14, 15,
                                   10, 11, 12, 13, 14, 15]) c"

text \<open>
  \<open>unquote_to_bytes\<close> replaces every escape \<open>%XX\<close> by its byte. \<open>bytes.decode('utf-8',
  'replace')\<close> keeps the well-formed sequences and puts U+FFFD in the place of every
  ill-formed one: of a byte that cannot start a sequence, and of the longest prefix of a
  sequence that is cut short or continued by a byte that cannot follow.
\<close>

fun unquote_to_bytes :: "string \<Rightarrow> string" where
  "unquote_to_bytes [] = []"
| "unquote_to_bytes [c] = [c]"
| "unquote_to_bytes [c, a] = [c, a]"
| "unquote_to_bytes (c # a # b # s) =
     (if c = CHR ''%'' then
        (case (hexval a, hexval b) of
           (Some x, Some y) \<Rightarrow> char_of (16 * x + y) # unquote_to_bytes s
         | _ \<Rightarrow> c # unquote_to_bytes (a # b # s))
      else c # unquote_to_bytes (a # b # s))"

definition continuation :: "char \<Rightarrow> bool" where
  "continuation c \<longleftrightarrow> 0x80 \<le> (of_char c :: nat) \<and> (of_char c :: nat) < 0xC0"

definition second_ok :: "char \<Rightarrow> char \<Rightarrow> bool" where
  "second_ok lead c \<longleftrightarrow>
     continuation c
     \<and> \<not> (lead = CHR 0xE0 \<and> (of_char c :: nat) < 0xA0)
     \<and> \<not> (lead = CHR 0xED \<and> 0xA0 \<le> (of_char c :: nat))
     \<and> \<not> (lead = CHR 0xF0 \<and> (of_char c :: nat) < 0x90)
     \<and> \<not> (lead = CHR 0xF4 \<and> 0x90 \<le> (of_char c :: nat))"

definition REPLACEMENT :: string where
  "REPLACEMENT = [CHR 0xEF, CHR 0xBF, CHR 0xBD]"

fun decode_replace :: "string \<Rightarrow> string" where
  "decode_replace [] = []"
| "decode_replace (c # s) =
     (if (of_char c :: nat) < 0x80 then c # decode_replace s
      else if (of_char c :: nat) < 0xC2 \<or> 0xF5 \<le> (of_char c :: nat)
      then REPLACEMENT @ decode_replace s
      else case s of
        [] \<Rightarrow> REPLACEMENT
      | c2 # s2 \<Rightarrow>
         if \<not> second_ok c c2 then REPLACEMENT @ decode_replace s
         else if (of_char c :: nat) < 0xE0 then c # c2 # decode_replace s2
         else case s2 of
           [] \<Rightarrow> REPLACEMENT
         | c3 # s3 \<Rightarrow>
            if \<not> continuation c3 then REPLACEMENT @ decode_replace s2
            else if (of_char c :: nat) < 0xF0 then c # c2 # c3 # decode_replace s3
            else case s3 of
              [] \<Rightarrow> REPLACEMENT
            | c4 # s4 \<Rightarrow>
               if \<not> continuation c4 then REPLACEMENT @ decode_replace s3
               else c # c2 # c3 # c4 # decode_replace s4)"

definition isascii :: "char \<Rightarrow> bool" where
  "isascii c \<longleftrightarrow> (of_char c :: nat) < 0x80"

text \<open>
  \<open>unquote\<close> returns a string without \<open>%\<close> as it is. Otherwise it decodes every maximal run
  of ASCII characters and copies the characters between the runs.
\<close>

function decode_runs :: "string \<Rightarrow> string" where
  "decode_runs s =
     (if s = [] then []
      else if isascii (hd s)
      then decode_replace (unquote_to_bytes (takeWhile isascii s)) @ decode_runs (dropWhile isascii s)
      else takeWhile (\<lambda>c. \<not> isascii c) s @ decode_runs (dropWhile (\<lambda>c. \<not> isascii c) s))"
  by pat_completeness auto
termination
proof (relation "measure length")
  show "wf (measure length)" by simp
next
  fix s :: string assume "s \<noteq> []" "isascii (hd s)"
  then show "(dropWhile isascii s, s) \<in> measure length"
    by (cases s) (auto intro: le_imp_less_Suc length_dropWhile_le)
next
  fix s :: string assume "s \<noteq> []" "\<not> isascii (hd s)"
  then show "(dropWhile (\<lambda>c. \<not> isascii c) s, s) \<in> measure length"
    by (cases s) (auto intro: le_imp_less_Suc length_dropWhile_le)
qed

declare decode_runs.simps [simp del]

definition unquote :: "string \<Rightarrow> string" where
  "unquote s = (if CHR ''%'' \<in> set s then decode_runs s else s)"

definition unquote_plus :: "string \<Rightarrow> string" where
  "unquote_plus s = unquote (map (\<lambda>c. if c = CHR ''+'' then CHR '' '' else c) s)"

definition parse_qsl :: "string \<Rightarrow> (string \<times> string) list" where
  "parse_qsl qs =
     (if qs = [] then []
      else map (\<lambda>nv. (unquote_plus (before (CHR ''='') nv), unquote_plus (after (CHR ''='') nv)))
             (filter (\<lambda>nv. nv \<noteq> [] \<and> after (CHR ''='') nv \<noteq> []) (split_on (CHR ''&'') qs)))"

text \<open>
  A \<open>dict\<close> keeps its keys in the order of their first insertion: an association list
  with distinct keys, a new key appended at the end.
\<close>

type_synonym query_dict = "(string \<times> string list) list"

fun dict_append :: "'k \<Rightarrow> 'v \<Rightarrow> ('k \<times> 'v list) list \<Rightarrow> ('k \<times> 'v list) list" where
  "dict_append name v [] = [(name, [v])]"
| "dict_append name v ((k, vs) # d) =
     (if name = k then (k, vs @ [v]) # d else (k, vs) # dict_append name v d)"

definition parse_qs :: "string \<Rightarrow> query_dict" where
  "parse_qs qs = foldl (\<lambda>d (name, v). dict_append name v d) [] (parse_qsl qs)"

text \<open>\<open>urlencode(query, doseq=True)\<close> on a dictionary of lists of strings.\<close>

definition urlencode :: "query_dict \<Rightarrow> string" where
  "urlencode d =
     join ''&'' (concat (map (\<lambda>(k, vs). map (\<lambda>v. quote_plus k @ ''='' @ quote_plus v) vs) d))"

section \<open>URL canonicalizer (\<open>news_search/url_normalizer.py\<close>)\<close>

definition tracking_params :: "string list" where
  "tracking_params =
     [''utm_source'', ''utm_medium'', ''utm_campaign'', ''utm_term'', ''utm_content'',
      ''fbclid'', ''gclid'', ''msclkid'', ''mc_cid'', ''mc_eid'',
      ''_ga'', ''_gl'', ''ref'', ''source'']"

definition normalize_url :: "(string \<Rightarrow> bool) \<Rightarrow> string \<Rightarrow> exn + string" where
  "normalize_url ip6 url0 =
     (let url = strip url0
      in case urlparse ip6 url of
           Inl e \<Rightarrow> Inl e
         | Inr parsed \<Rightarrow>
            (let scheme' = (if scheme parsed \<noteq> [] then lower (scheme parsed) else ''https'');
                 netloc0 = lower (netloc parsed);
                 netloc' = (if startswith netloc0 ''www.'' then drop 4 netloc0 else netloc0);
                 query_params = parse_qs (query parsed);
                 filtered_params = filter (\<lambda>(k, v). k \<notin> set tracking_params) query_params;
                 query' = (if filtered_params \<noteq> [] then urlencode filtered_params else '''');
                 fragment' = '''';
                 path' = (if path parsed \<noteq> ''/''
                          then rstrip (\<lambda>c. c = CHR ''/'') (path parsed) else path parsed)
             in Inr (urlunparse (scheme', netloc', path', params parsed, query', fragment'))))"

definition is_valid_url :: "(string \<Rightarrow> bool) \<Rightarrow> string \<Rightarrow> bool" where
  "is_valid_url ip6 url =
     (case urlparse ip6 url of
        Inl e \<Rightarrow> False
      | Inr result \<Rightarrow> scheme result \<noteq> [] \<and> netloc result \<noteq> [])"

definition extract_domain :: "(string \<Rightarrow> bool) \<Rightarrow> string \<Rightarrow> string" where
  "extract_domain ip6 url =
     (case urlparse ip6 url of
        Inl e \<Rightarrow> ''''
      | Inr parsed \<Rightarrow> replace ''www.'' '''' (lower (netloc parsed)))"

section \<open>Collaborators and configuration\<close>

text \<open>
  The result of \<open>ai_processor.process(url)\<close> is a dictionary or \<open>None\<close>; the engine reads
  the keys \<open>success\<close>, \<open>title\<close>, \<open>content\<close>, \<open>translated_content\<close> and \<open>metadata\<close> of it.
\<close>

record ai_result =
  result_success :: bool
  result_title :: "string option"
  result_content :: "string option"
  result_translated_content :: "string option"
  result_metadata :: "(string \<times> string) list option"

text \<open>
  Everything outside the repository is a field of the environment:
  \<^item> \<open>ai_processor\<close>: the Content Processor handed to \<open>ProcessorWorker\<close>, or \<open>None\<close>. A call
    \<open>process(url)\<close> raises or returns; its outcome may depend on the calls made before it,
    so the processor reads the list of URLs it has been called with so far;
  \<^item> \<open>store_error\<close>: whether the \<open>n\<close>-th operation on the store raises (the connection
    fails, or the statement does and the transaction is rolled back);
  \<^item> \<open>current_timestamp\<close>: the value of \<open>CURRENT_TIMESTAMP\<close> in the \<open>n\<close>-th operation;
  \<^item> \<open>search\<close>: \<open>SearchClient.search\<close>, which catches every error and returns \<open>None\<close> then;
  \<^item> \<open>sha256\<close>: \<open>hashlib.sha256(...).hexdigest()\<close>;
  \<^item> \<open>ip_address_v6\<close>: the address check of \<open>urllib.parse\<close>;
  \<^item> \<open>has_processor_worker\<close>: whether \<open>NewsSearchModule\<close> was given a worker.
\<close>

record env =
  ai_processor :: "(string list \<Rightarrow> string \<Rightarrow> exn + ai_result option) option"
  store_error :: "nat \<Rightarrow> exn option"
  current_timestamp :: "nat \<Rightarrow> nat"
  search :: "string \<Rightarrow> string list option"
  sha256 :: "string \<Rightarrow> string"
  ip_address_v6 :: "string \<Rightarrow> bool"
  has_processor_worker :: bool

definition MAX_RETRIES :: nat where
  "MAX_RETRIES = 2"

definition AUTO_PROCESS_AFTER_SEARCH :: bool where
  "AUTO_PROCESS_AFTER_SEARCH = True"

section \<open>State store (\<open>news_search/database.py\<close>)\<close>

record news_link =
  link_id :: nat
  url :: string
  url_hash :: string
  link_title :: "string option"
  discovered_at :: nat
  source_task :: string
  status :: string
  error_message :: "string option"
  processed_at :: "nat option"
  last_checked :: "nat option"
  link_created_at :: nat

record processed_row =
  content_id :: nat
  content_link_id :: nat
  title :: "string option"
  content :: "string option"
  translated_content :: "string option"
  tags :: "string list option"
  country :: "string option"
  news_date :: "string option"
  metadata :: "(string \<times> string) list option"
  content_created_at :: nat
  content_updated_at :: nat

record query_task =
  task_id :: nat
  task_name :: string
  prompt_template :: string
  is_active :: bool
  schedule :: "string option"
  last_run :: "nat option"
  total_runs :: nat
  total_links_found :: nat
  task_created_at :: nat
  task_updated_at :: nat

text \<open>The tables hold their rows in the order of insertion; a sequence holds its last value.\<close>

record database =
  news_links :: "news_link list"
  processed_content :: "processed_row list"
  query_tasks :: "query_task list"
  news_links_id_seq :: nat
  processed_content_id_seq :: nat

text \<open>
  The world is the store, the number of store operations started so far, and the URLs the
  Content Processor has been called with so far. It also keeps a history: the status
  writes committed so far, each with the id it was made for, in their order. The code has
  no such list; nothing in the model reads it, and it serves to state the order in which the
  statuses of a link are written.
\<close>

record world =
  db :: database
  store_ops :: nat
  ai_calls :: "string list"
  status_writes :: "(nat \<times> string) list"

text \<open>
  \<open>get_connection\<close>: one operation is one transaction. When it raises, the transaction is
  rolled back and the store is as before; otherwise the statement runs at the current
  timestamp and is committed.
\<close>

definition get_connection ::
  "env \<Rightarrow> (nat \<Rightarrow> database \<Rightarrow> 'a \<times> database) \<Rightarrow> world \<Rightarrow> (exn + 'a) \<times> world" where
  "get_connection e body w =
     (case store_error e (store_ops w) of
        Some err \<Rightarrow> (Inl err, w\<lparr>store_ops := Suc (store_ops w)\<rparr>)
      | None \<Rightarrow>
         (let (r, d) = body (current_timestamp e (store_ops w)) (db w)
          in (Inr r, w\<lparr>db := d, store_ops := Suc (store_ops w)\<rparr>)))"

text \<open>
  \<open>INSERT ... ON CONFLICT (url_hash) DO NOTHING RETURNING id\<close>: the sequence is advanced
  before the conflict is seen, the row is added only when no row has the hash.
\<close>

definition insert_news_link :: "env \<Rightarrow> string \<Rightarrow> string \<Rightarrow> string \<Rightarrow> world \<Rightarrow> (exn + nat option) \<times> world" where
  "insert_news_link e u h task =
     get_connection e (\<lambda>now d.
       (let i = Suc (news_links_id_seq d)
        in if \<exists>r \<in> set (news_links d). url_hash r = h
           then (None, d\<lparr>news_links_id_seq := i\<rparr>)
           else (Some i,
                 d\<lparr>news_links := news_links d @
                      [\<lparr>link_id = i, url = u, url_hash = h, link_title = None,
                        discovered_at = now, source_task = task, status = ''pending'',
                        error_message = None, processed_at = None, last_checked = None,
                        link_created_at = now\<rparr>],
                    news_links_id_seq := i\<rparr>)))"

definition url_exists :: "env \<Rightarrow> string \<Rightarrow> world \<Rightarrow> (exn + bool) \<times> world" where
  "url_exists e h =
     get_connection e (\<lambda>now d. ((\<exists>r \<in> set (news_links d). url_hash r = h), d))"


definition get_links_by_ids :: "env \<Rightarrow> nat list \<Rightarrow> world \<Rightarrow> (exn + news_link list) \<times> world" where
  "get_links_by_ids e link_ids =
     get_connection e (\<lambda>now d. (filter (\<lambda>r. link_id r \<in> set link_ids) (news_links d), d))"

text \<open>
  \<open>UPDATE news_links SET status = ... WHERE id = ...\<close>; \<open>processed_at\<close> is set with the
  statuses \<open>completed\<close> and \<open>failed\<close> only. A committed write is added to the history.
\<close>

definition update_link_status ::
  "env \<Rightarrow> nat \<Rightarrow> string \<Rightarrow> string option \<Rightarrow> world \<Rightarrow> (exn + unit) \<times> world" where
  "update_link_status e i st msg w =
     (case get_connection e (\<lambda>now d.
             ((), d\<lparr>news_links :=
                      map (\<lambda>r. if link_id r = i
                                then (if st \<in> set [''completed'', ''failed'']
                                      then r\<lparr>status := st, error_message := msg, processed_at := Some now\<rparr>
                                      else r\<lparr>status := st, error_message := msg\<rparr>)
                                else r)
                          (news_links d)\<rparr>)) w of
        (Inl err, w') \<Rightarrow> (Inl err, w')
      | (Inr u, w') \<Rightarrow> (Inr u, w'\<lparr>status_writes := status_writes w' @ [(i, st)]\<rparr>))"

text \<open>
  \<open>INSERT ... ON CONFLICT (link_id) DO UPDATE\<close>; the worker passes no tags, country or
  news date. An empty metadata dictionary is stored as \<open>NULL\<close>.
\<close>

definition save_processed_content ::
  "env \<Rightarrow> nat \<Rightarrow> string option \<Rightarrow> string option \<Rightarrow> string option \<Rightarrow> (string \<times> string) list option
     \<Rightarrow> world \<Rightarrow> (exn + unit) \<times> world" where
  "save_processed_content e i t c tc md =
     get_connection e (\<lambda>now d.
       (let md' = (case md of None \<Rightarrow> None | Some m \<Rightarrow> if m \<noteq> [] then Some m else None);
            j = Suc (processed_content_id_seq d)
        in if \<exists>r \<in> set (processed_content d). content_link_id r = i
           then ((), d\<lparr>processed_content :=
                         map (\<lambda>r. if content_link_id r = i
                                   then r\<lparr>title := t, content := c, translated_content := tc,
                                          tags := None, country := None, news_date := None,
                                          metadata := md', content_updated_at := now\<rparr>
                                   else r)
                             (processed_content d),
                       processed_content_id_seq := j\<rparr>)
           else ((), d\<lparr>processed_content := processed_content d @
                         [\<lparr>content_id = j, content_link_id = i, title = t, content = c,
                           translated_content = tc, tags = None, country = None,
                           news_date = None, metadata = md', content_created_at = now,
                           content_updated_at = now\<rparr>],
                       processed_content_id_seq := j\<rparr>)))"

definition get_processed_content :: "env \<Rightarrow> nat \<Rightarrow> world \<Rightarrow> (exn + processed_row option) \<times> world" where
  "get_processed_content e i =
     get_connection e (\<lambda>now d. (find (\<lambda>r. content_link_id r = i) (processed_content d), d))"

definition get_query_task :: "env \<Rightarrow> string \<Rightarrow> world \<Rightarrow> (exn + query_task option) \<times> world" where
  "get_query_task e name =
     get_connection e (\<lambda>now d. (find (\<lambda>t. task_name t = name) (query_tasks d), d))"

definition update_task_run_stats :: "env \<Rightarrow> string \<Rightarrow> nat \<Rightarrow> world \<Rightarrow> (exn + unit) \<times> world" where
  "update_task_run_stats e name links_found =
     get_connection e (\<lambda>now d.
       ((), d\<lparr>query_tasks :=
                map (\<lambda>t. if task_name t = name
                          then t\<lparr>last_run := Some now, total_runs := total_runs t + 1,
                                 total_links_found := total_links_found t + links_found,
                                 task_updated_at := now\<rparr>
                          else t)
                    (query_tasks d)\<rparr>))"

definition hash_url :: "env \<Rightarrow> string \<Rightarrow> string" where
  "hash_url e u = sha256 e u"

section \<open>Processing engine (\<open>news_search/processor_worker.py\<close>)\<close>

text \<open>
  \<open>_apply_rate_limit\<close> and the back-off between attempts only sleep and keep time stamps in
  memory; no result or stored value depends on them, and they are left out.

  The counters of one domain, and the aggregate with its break-down by domain. The two
  early returns of the entry points build a dictionary without the key \<open>by_domain\<close>.
\<close>

record counters =
  total :: nat
  success :: nat
  failed :: nat
  skipped :: nat

record stats = counters +
  by_domain :: "(string \<times> counters) list option"

text \<open>A dictionary with its keys in the order of their first insertion.\<close>

fun dict_set :: "'k \<Rightarrow> 'v \<Rightarrow> ('k \<times> 'v) list \<Rightarrow> ('k \<times> 'v) list" where
  "dict_set k v [] = [(k, v)]"
| "dict_set k v ((k', v') # d) = (if k = k' then (k', v) # d else (k', v') # dict_set k v d)"

definition group_by_domain :: "env \<Rightarrow> news_link list \<Rightarrow> (string \<times> news_link list) list" where
  "group_by_domain e links =
     foldl (\<lambda>groups link. dict_append (extract_domain (ip_address_v6 e) (url link)) link groups)
       [] links"

text \<open>
  One pass through the body of \<open>try\<close> in \<open>_process_single_link\<close>: it returns \<open>True\<close>, falls
  through to the next attempt, or raises into the handler.
\<close>

datatype attempt = Returned_True | No_Result | Raised exn

definition try_process :: "env \<Rightarrow> news_link \<Rightarrow> world \<Rightarrow> attempt \<times> world" where
  "try_process e link w =
     (case ai_processor e of
        Some process \<Rightarrow>
          (let w1 = w\<lparr>ai_calls := ai_calls w @ [url link]\<rparr>
           in case process (ai_calls w) (url link) of
                Inl err \<Rightarrow> (Raised err, w1)
              | Inr result \<Rightarrow>
                 (case result of
                    None \<Rightarrow> (No_Result, w1)
                  | Some r \<Rightarrow>
                     if result_success r
                     then (case save_processed_content e (link_id link) (result_title r)
                                  (result_content r) (result_translated_content r)
                                  (result_metadata r) w1 of
                             (Inl err, w2) \<Rightarrow> (Raised err, w2)
                           | (Inr _, w2) \<Rightarrow>
                              (case update_link_status e (link_id link) ''completed'' None w2 of
                                 (Inl err, w3) \<Rightarrow> (Raised err, w3)
                               | (Inr _, w3) \<Rightarrow> (Returned_True, w3)))
                     else (No_Result, w1)))
      | None \<Rightarrow>
          (case update_link_status e (link_id link) ''completed'' None w of
             (Inl err, w1) \<Rightarrow> (Raised err, w1)
           | (Inr _, w1) \<Rightarrow> (Returned_True, w1)))"

text \<open>The loop \<open>for attempt in range(1, MAX_RETRIES + 1)\<close> over the attempts still to make.\<close>

fun retry :: "env \<Rightarrow> news_link \<Rightarrow> nat list \<Rightarrow> world \<Rightarrow> (exn + bool) \<times> world" where
  "retry e link [] w = (Inr False, w)"
| "retry e link (attempt # rest) w =
     (case try_process e link w of
        (Returned_True, w1) \<Rightarrow> (Inr True, w1)
      | (No_Result, w1) \<Rightarrow> retry e link rest w1
      | (Raised err, w1) \<Rightarrow>
          if attempt = MAX_RETRIES
          then (case update_link_status e (link_id link) ''failed'' (Some (str_of err)) w1 of
                  (Inl err', w2) \<Rightarrow> (Inl err', w2)
                | (Inr _, w2) \<Rightarrow> (Inr False, w2))
          else retry e link rest w1)"

definition process_single_link :: "env \<Rightarrow> news_link \<Rightarrow> world \<Rightarrow> (exn + bool) \<times> world" where
  "process_single_link e link w = retry e link [1 ..< MAX_RETRIES + 1] w"

text \<open>The loop of \<open>_process_domain\<close> over the links of one domain.\<close>

fun process_links :: "env \<Rightarrow> news_link list \<Rightarrow> counters \<Rightarrow> world \<Rightarrow> (exn + counters) \<times> world" where
  "process_links e [] st w = (Inr st, w)"
| "process_links e (link # rest) st w =
     (case update_link_status e (link_id link) ''processing'' None w of
        (Inl err, w1) \<Rightarrow> (Inl err, w1)
      | (Inr _, w1) \<Rightarrow>
         (case process_single_link e link w1 of
            (Inl err, w2) \<Rightarrow> (Inl err, w2)
          | (Inr ok, w2) \<Rightarrow>
              if ok then process_links e rest (st\<lparr>success := success st + 1\<rparr>) w2
              else process_links e rest (st\<lparr>failed := failed st + 1\<rparr>) w2))"

definition process_domain :: "env \<Rightarrow> string \<Rightarrow> news_link list \<Rightarrow> world \<Rightarrow> (exn + counters) \<times> world" where
  "process_domain e domain links w =
     process_links e links \<lparr>total = length links, success = 0, failed = 0, skipped = 0\<rparr> w"

text \<open>
  \<open>_process_domains\<close> hands every domain to a pool of threads and reads the results as they
  complete. Each worker writes only the rows of its own links, so the model runs the
  domains one after the other, in the order of the list (which stands for the order of
  completion). A worker that raised is reported on the console and adds nothing.
\<close>

fun collect :: "env \<Rightarrow> (string \<times> news_link list) list \<Rightarrow> stats \<Rightarrow> world \<Rightarrow> stats \<times> world" where
  "collect e [] st w = (st, w)"
| "collect e ((domain, links) # rest) st w =
     (case process_domain e domain links w of
        (Inr domain_stats, w1) \<Rightarrow>
          collect e rest
            (st\<lparr>by_domain := Some (dict_set domain domain_stats (case by_domain st of None \<Rightarrow> [] | Some d \<Rightarrow> d)),
                total := total st + total domain_stats,
                success := success st + success domain_stats,
                failed := failed st + failed domain_stats,
                skipped := skipped st + skipped domain_stats\<rparr>) w1
      | (Inl err, w1) \<Rightarrow> collect e rest st w1)"

definition process_domains :: "env \<Rightarrow> (string \<times> news_link list) list \<Rightarrow> world \<Rightarrow> stats \<times> world" where
  "process_domains e domain_groups w =
     collect e domain_groups
       \<lparr>total = 0, success = 0, failed = 0, skipped = 0, by_domain = Some []\<rparr> w"

definition no_links :: stats where
  "no_links = \<lparr>total = 0, success = 0, failed = 0, skipped = 0, by_domain = None\<rparr>"


definition process_specific_links :: "env \<Rightarrow> nat list \<Rightarrow> world \<Rightarrow> (exn + stats) \<times> world" where
  "process_specific_links e link_ids w =
     (case get_links_by_ids e link_ids w of
        (Inl err, w1) \<Rightarrow> (Inl err, w1)
      | (Inr links, w1) \<Rightarrow>
          if links = [] then (Inr no_links, w1)
          else (let (results, w2) = process_domains e (group_by_domain e links) w1
                in (Inr results, w2)))"

section \<open>Orchestrator (\<open>news_search/search_module.py\<close>)\<close>

record url_entry =
  entry_id :: nat
  entry_url :: string
  original_url :: string

record url_results =
  new_links :: nat
  duplicates :: nat
  invalid :: nat
  urls :: "url_entry list"

record search_ok = url_results +
  ok_task_name :: string
  total_found :: nat
  processing :: "stats option"

text \<open>
  A result is the dictionary of a failure (its error text, and the task name where the code
  puts one) or the dictionary of a completed run.
\<close>

datatype search_result = Failure string "string option" | Success search_ok

fun process_urls_loop :: "env \<Rightarrow> string list \<Rightarrow> string \<Rightarrow> url_results \<Rightarrow> world \<Rightarrow> (exn + url_results) \<times> world" where
  "process_urls_loop e [] task acc w = (Inr acc, w)"
| "process_urls_loop e (u # rest) task acc w =
     (if \<not> is_valid_url (ip_address_v6 e) u
      then process_urls_loop e rest task (acc\<lparr>invalid := invalid acc + 1\<rparr>) w
      else case normalize_url (ip_address_v6 e) u of
             Inl err \<Rightarrow> (Inl err, w)
           | Inr normalized_url \<Rightarrow>
              (let url_hash_value = hash_url e normalized_url
               in case url_exists e url_hash_value w of
                    (Inl err, w1) \<Rightarrow> (Inl err, w1)
                  | (Inr True, w1) \<Rightarrow>
                      process_urls_loop e rest task (acc\<lparr>duplicates := duplicates acc + 1\<rparr>) w1
                  | (Inr False, w1) \<Rightarrow>
                     (case insert_news_link e normalized_url url_hash_value task w1 of
                        (Inl err, w2) \<Rightarrow> (Inl err, w2)
                      | (Inr new_id, w2) \<Rightarrow>
                         (case new_id of
                            Some i \<Rightarrow>
                              if i \<noteq> 0
                              then process_urls_loop e rest task
                                     (acc\<lparr>new_links := new_links acc + 1,
                                          urls := urls acc @
                                            [\<lparr>entry_id = i, entry_url = normalized_url,
                                              original_url = u\<rparr>]\<rparr>) w2
                              else process_urls_loop e rest task acc w2
                          | None \<Rightarrow> process_urls_loop e rest task acc w2))))"

definition process_urls :: "env \<Rightarrow> string list \<Rightarrow> string \<Rightarrow> world \<Rightarrow> (exn + url_results) \<times> world" where
  "process_urls e us task w =
     process_urls_loop e us task \<lparr>new_links = 0, duplicates = 0, invalid = 0, urls = []\<rparr> w"

definition execute_search :: "env \<Rightarrow> string \<Rightarrow> string \<Rightarrow> world \<Rightarrow> (exn + search_result) \<times> world" where
  "execute_search e prompt task w =
     (case search e prompt of
        None \<Rightarrow> (Inr (Failure ''Search failed'' (Some task)), w)
      | Some us \<Rightarrow>
         (case process_urls e us task w of
            (Inl err, w1) \<Rightarrow> (Inl err, w1)
          | (Inr results, w1) \<Rightarrow>
             (case update_task_run_stats e task (new_links results) w1 of
                (Inl err, w2) \<Rightarrow> (Inl err, w2)
              | (Inr _, w2) \<Rightarrow>
                 (let search_result = \<lparr>new_links = new_links results,
                        duplicates = duplicates results, invalid = invalid results,
                        urls = urls results, ok_task_name = task, total_found = length us,
                        processing = None\<rparr>
                  in if AUTO_PROCESS_AFTER_SEARCH \<and> has_processor_worker e \<and> new_links results > 0
                     then (case process_specific_links e (map entry_id (urls results)) w2 of
                             (Inl err, w3) \<Rightarrow> (Inl err, w3)
                           | (Inr processing_result, w3) \<Rightarrow>
                               (Inr (Success (search_result\<lparr>processing := Some processing_result\<rparr>)), w3))
                     else (Inr (Success search_result), w2)))))"

definition run_task :: "env \<Rightarrow> string \<Rightarrow> world \<Rightarrow> (exn + search_result) \<times> world" where
  "run_task e name w =
     (case get_query_task e name w of
        (Inl err, w1) \<Rightarrow> (Inl err, w1)
      | (Inr None, w1) \<Rightarrow>
          (Inr (Failure (''Task '' @ [CHR 0x27] @ name @ [CHR 0x27] @ '' not found'') None), w1)
      | (Inr (Some task), w1) \<Rightarrow>
          if \<not> is_active task
          then (Inr (Failure (''Task '' @ [CHR 0x27] @ name @ [CHR 0x27] @ '' is not active'') None), w1)
          else execute_search e (prompt_template task) name w1)"

section \<open>Properties of the store and of the counters\<close>


text \<open>
  What the code does to a row: it leaves the row as it is, or it keeps its identity (id, URL,
  hash) and writes one of the statuses \<open>processing\<close>, \<open>completed\<close>, \<open>failed\<close>. A store settles
  when it has the same rows, each changed in that way only; it evolves when rows may have
  been added behind them as well.
\<close>

definition step :: "news_link \<Rightarrow> news_link \<Rightarrow> bool" where
  "step l l' \<longleftrightarrow>
     l' = l \<or> (link_id l' = link_id l \<and> url l' = url l \<and> url_hash l' = url_hash l
               \<and> status l' \<in> set [''processing'', ''completed'', ''failed''])"

definition settles :: "database \<Rightarrow> database \<Rightarrow> bool" where
  "settles d d' \<longleftrightarrow> list_all2 step (news_links d) (news_links d')"


definition balanced :: "counters \<Rightarrow> bool" where
  "balanced c \<longleftrightarrow> success c + failed c + skipped c = total c \<and> skipped c = 0"

definition sums_up :: "stats \<Rightarrow> (string \<times> counters) list \<Rightarrow> bool" where
  "sums_up st bd \<longleftrightarrow>
     total st = sum_list (map (\<lambda>(d, c). total c) bd)
     \<and> success st = sum_list (map (\<lambda>(d, c). success c) bd)
     \<and> failed st = sum_list (map (\<lambda>(d, c). failed c) bd)
     \<and> skipped st = sum_list (map (\<lambda>(d, c). skipped c) bd)"

text \<open>
  The order of the status writes. \<open>writes_of i log\<close> are the statuses written to the link
  \<open>i\<close>, in their order. They come in \<open>rounds\<close> when each round begins with \<open>processing\<close> and
  holds after it at most one of \<open>completed\<close> and \<open>failed\<close>: neither of the two is written
  without the \<open>processing\<close> of its round before it, and nothing but \<open>processing\<close> follows
  them.
\<close>

definition writes_of :: "nat \<Rightarrow> (nat \<times> string) list \<Rightarrow> string list" where
  "writes_of i log = map snd (filter (\<lambda>(j, st). j = i) log)"

fun rounds :: "string list \<Rightarrow> bool" where
  "rounds [] = True"
| "rounds [st] = (st = ''processing'')"
| "rounds (st # st' # rest) =
     (st = ''processing''
      \<and> (if st' \<in> set [''completed'', ''failed''] then rounds rest else rounds (st' # rest)))"




text \<open>
  What the workers of the domains give, in the order in which \<open>_process_domains\<close> reads
  them, each started in the world the one before it left; and the counters of those that
  returned.
\<close>

fun worker_results :: "env \<Rightarrow> (string \<times> news_link list) list \<Rightarrow> world \<Rightarrow> (string \<times> (exn + counters)) list" where
  "worker_results e [] w = []"
| "worker_results e ((domain, links) # rest) w =
     (case process_domain e domain links w of
        (r, w1) \<Rightarrow> (domain, r) # worker_results e rest w1)"

definition returned :: "(string \<times> (exn + counters)) list \<Rightarrow> (string \<times> counters) list" where
  "returned rs = concat (map (\<lambda>(domain, r). case r of Inr c \<Rightarrow> [(domain, c)] | Inl err \<Rightarrow> []) rs)"

section \<open>Properties of the canonicalizer\<close>

text \<open>
  The surviving parameters of a query, and a list of parameters grouped by name: the names in
  the order of their first occurrence, the values of one name in their order.
\<close>

fun grouped :: "('k \<times> 'v) list \<Rightarrow> ('k \<times> 'v) list" where
  "grouped [] = []"
| "grouped ((k, v) # ps) =
     (k, v) # filter (\<lambda>p. fst p = k) ps @ grouped (filter (\<lambda>p. fst p \<noteq> k) ps)"

definition survivors :: "string \<Rightarrow> (string \<times> string) list" where
  "survivors qs = filter (\<lambda>(k, v). k \<notin> set tracking_params) (parse_qsl qs)"

definition encoded :: "(string \<times> string) list \<Rightarrow> string" where
  "encoded ps = join ''&'' (map (\<lambda>(k, v). quote_plus k @ ''='' @ quote_plus v) ps)"

definition flat :: "('k \<times> 'v list) list \<Rightarrow> ('k \<times> 'v) list" where
  "flat d = concat (map (\<lambda>(k, vs). map (Pair k) vs) d)"

text \<open>
  Absolute URLs in the usual form, built from a scheme, a host, a path and the items
  \<open>name=value\<close> of a query. Every part is plain: it is made of the visible characters of
  ASCII (no control character, no space, nothing above 126). The host has no delimiter and
  no bracket, the path starts with a slash and has no \<open>?\<close> or \<open>#\<close>, an item has no \<open>&\<close>
  or \<open>#\<close>. A tracker is an item whose name is one of the tracking parameters.
\<close>

definition plain :: "string \<Rightarrow> bool" where
  "plain s \<longleftrightarrow> list_all (\<lambda>c. 32 < (of_char c :: nat) \<and> (of_char c :: nat) < 127) s"

definition scheme_ok :: "string \<Rightarrow> bool" where
  "scheme_ok s \<longleftrightarrow> s \<noteq> [] \<and> hd s \<in> set (ascii_lowercase @ ascii_uppercase)
                    \<and> list_all (\<lambda>c. c \<in> set scheme_chars) s"

definition host_ok :: "string \<Rightarrow> bool" where
  "host_ok h \<longleftrightarrow> h \<noteq> [] \<and> plain h \<and> list_all (\<lambda>c. c \<notin> set ''/?#[]'') h"

definition path_ok :: "string \<Rightarrow> bool" where
  "path_ok p \<longleftrightarrow> (p = [] \<or> hd p = CHR ''/'') \<and> plain p \<and> list_all (\<lambda>c. c \<notin> set ''?#'') p"

definition param_ok :: "string \<Rightarrow> bool" where
  "param_ok x \<longleftrightarrow> plain x \<and> list_all (\<lambda>c. c \<notin> set ''&#'') x"


definition mk_url :: "string \<Rightarrow> string \<Rightarrow> string \<Rightarrow> string list \<Rightarrow> string" where
  "mk_url s h p ps = s @ ''://'' @ h @ p @ (if ps = [] then [] else ''?'' @ join ''&'' ps)"


section \<open>Example environments and stores\<close>

definition unsuccessful :: ai_result where
  "unsuccessful = \<lparr>result_success = False, result_title = None, result_content = None,
                    result_translated_content = None, result_metadata = None\<rparr>"

definition article :: ai_result where
  "article = \<lparr>result_success = True, result_title = Some ''T'', result_content = Some ''C'',
               result_translated_content = Some ''TC'', result_metadata = None\<rparr>"

text \<open>
  A store that never raises, a clock that counts the operations, the identity as a hash
  that never collides, and no address in brackets.
\<close>

definition example_env :: "(string list \<Rightarrow> string \<Rightarrow> exn + ai_result option) option \<Rightarrow> env" where
  "example_env p = \<lparr>ai_processor = p, store_error = (\<lambda>n. None), current_timestamp = (\<lambda>n. n),
                     search = (\<lambda>prompt. None), sha256 = (\<lambda>u. u), ip_address_v6 = (\<lambda>h. False),
                     has_processor_worker = True\<rparr>"

definition example_link :: "nat \<Rightarrow> string \<Rightarrow> string \<Rightarrow> news_link" where
  "example_link i u st = \<lparr>link_id = i, url = u, url_hash = u, link_title = None,
                           discovered_at = 0, source_task = ''demo'', status = st,
                           error_message = None, processed_at = None, last_checked = None,
                           link_created_at = 0\<rparr>"

definition example_world :: "news_link list \<Rightarrow> world" where
  "example_world links =
     \<lparr>db = \<lparr>news_links = links, processed_content = [], query_tasks = [],
             news_links_id_seq = length links, processed_content_id_seq = 0\<rparr>,
      store_ops = 0, ai_calls = [], status_writes = []\<rparr>"

text \<open>Two pending links of two domains, and a store whose second operation fails.\<close>

definition link_a :: news_link where
  "link_a = example_link 1 ''http://a.com/1'' ''pending''"

definition link_b :: news_link where
  "link_b = example_link 2 ''http://b.com/2'' ''pending''"

definition succeeding :: "string list \<Rightarrow> string \<Rightarrow> exn + ai_result option" where
  "succeeding calls u = Inr (Some article)"


definition declining :: "string list \<Rightarrow> string \<Rightarrow> exn + ai_result option" where
  "declining calls u = Inr (Some unsuccessful)"

definition flaky_store_env :: "nat \<Rightarrow> env" where
  "flaky_store_env k =
     (example_env (Some succeeding))
       \<lparr>store_error := (\<lambda>n. if n = k then Some (Exception ''connection refused'') else None)\<rparr>"

text \<open>The task and the discovery of the end-to-end scenario, on an empty store.\<close>

definition demo_task :: query_task where
  "demo_task = \<lparr>task_id = 1, task_name = ''demo'', prompt_template = ''find news'',
                 is_active = True, schedule = None, last_run = None, total_runs = 0,
                 total_links_found = 0, task_created_at = 0, task_updated_at = 0\<rparr>"

definition demo_world :: world where
  "demo_world = \<lparr>db = \<lparr>news_links = [], processed_content = [], query_tasks = [demo_task],
                        news_links_id_seq = 0, processed_content_id_seq = 0\<rparr>,
                  store_ops = 0, ai_calls = [], status_writes = []\<rparr>"

definition demo_urls :: "string list" where
  "demo_urls = [''http://a.com/1'', ''http://a.com/1?utm_source=x'', ''http://b.com/2'',
                ''not a url'']"

definition demo_env :: env where
  "demo_env = (example_env (Some succeeding))\<lparr>search := (\<lambda>prompt. Some demo_urls)\<rparr>"

section \<open>The store under the engine\<close>

lemma step_refl: "step l l"
  by (simp add: step_def)

lemma step_trans: "step a b \<Longrightarrow> step b c \<Longrightarrow> step a c"
  by (auto simp: step_def)

lemma settles_refl: "settles d d"
  by (simp add: settles_def list_all2_refl step_refl)

lemma settles_trans: "settles a b \<Longrightarrow> settles b c \<Longrightarrow> settles a c"
  unfolding settles_def by (rule list_all2_trans[rotated 1]) (blast intro: step_trans)+

lemma settles_same_links: "news_links d' = news_links d \<Longrightarrow> settles d d'"
  by (simp add: settles_def list_all2_refl step_refl)

lemma get_connection_db:
  assumes "get_connection e body w = (r, w')"
  shows "db w' = db w \<or> db w' = snd (body (current_timestamp e (store_ops w)) (db w))"
  using assms by (auto simp: get_connection_def split: option.splits prod.splits)

lemma news_links_update:
  assumes "update_link_status e i st msg w = (r, w')"
  shows "news_links (db w') = news_links (db w) \<or>
         news_links (db w') = map (\<lambda>r. if link_id r = i
                          then (if st \<in> set [''completed'', ''failed'']
                                then r\<lparr>status := st, error_message := msg, processed_at := Some (current_timestamp e (store_ops w))\<rparr>
                                else r\<lparr>status := st, error_message := msg\<rparr>)
                          else r) (news_links (db w))"
  using assms
  by (auto simp: update_link_status_def get_connection_def split: option.splits prod.splits sum.splits)

lemma settles_update:
  assumes "update_link_status e i st msg w = (r, w')" and "st \<in> set [''processing'', ''completed'', ''failed'']"
  shows "settles (db w) (db w')"
  using news_links_update[OF assms(1)] assms(2)
  by (auto simp: settles_def list_all2_map2 step_def intro!: list_all2_refl)

lemma settles_save:
  assumes "save_processed_content e i t c tc md w = (r, w')"
  shows "news_links (db w') = news_links (db w)"
  using get_connection_db[OF assms[unfolded save_processed_content_def]]
  by (auto simp: Let_def split: if_splits)

lemma settles_try:
  assumes "try_process e link w = (a, w')"
  shows "settles (db w) (db w')"
proof (cases "ai_processor e")
  case None
  with assms show ?thesis
    by (auto simp: try_process_def split: prod.splits sum.splits intro: settles_update)
next
  case (Some process)
  let ?w1 = "w\<lparr>ai_calls := ai_calls w @ [url link]\<rparr>"
  show ?thesis
  proof (cases "process (ai_calls w) (url link)")
    case (Inl err)
    with assms Some show ?thesis by (auto simp: try_process_def Let_def settles_refl)
  next
    case (Inr result)
    show ?thesis
    proof (cases "\<exists>r. result = Some r \<and> result_success r")
      case False
      with assms Some Inr show ?thesis
        by (auto simp: try_process_def Let_def settles_refl split: option.splits)
    next
      case True
      then obtain r where r: "result = Some r" "result_success r" by blast
      obtain x w2 where s: "save_processed_content e (link_id link) (result_title r)
          (result_content r) (result_translated_content r) (result_metadata r) ?w1 = (x, w2)"
        by (cases "save_processed_content e (link_id link) (result_title r)
          (result_content r) (result_translated_content r) (result_metadata r) ?w1") 
      have e12: "settles (db w) (db w2)"
        using settles_save[OF s] by (simp add: settles_same_links)
      show ?thesis
      proof (cases x)
        case (Inl err)
        with assms Some Inr r s e12 show ?thesis
          by (auto simp: try_process_def Let_def)
      next
        case xr: (Inr u)
        obtain y w3 where u: "update_link_status e (link_id link) ''completed'' None w2 = (y, w3)"
          by (cases "update_link_status e (link_id link) ''completed'' None w2")
        have "settles (db w2) (db w3)" by (rule settles_update[OF u]) simp
        with e12 have e13: "settles (db w) (db w3)" by (rule settles_trans)
        from assms Some Inr r s xr u have "w' = w3"
          by (cases y) (auto simp: try_process_def Let_def)
        with e13 show ?thesis by simp
      qed
    qed
  qed
qed

lemma settles_retry:
  assumes "retry e link atts w = (r, w')"
  shows "settles (db w) (db w')"
  using assms
proof (induction atts arbitrary: w)
  case Nil
  then show ?case by (simp add: settles_refl)
next
  case (Cons attempt rest)
  obtain a w1 where t: "try_process e link w = (a, w1)" by (cases "try_process e link w")
  note e1 = settles_try[OF t]
  show ?case
  proof (cases a)
    case Returned_True
    with Cons.prems t e1 show ?thesis by simp
  next
    case No_Result
    with Cons.prems t have "retry e link rest w1 = (r, w')" by simp
    from e1 Cons.IH[OF this] show ?thesis by (rule settles_trans)
  next
    case (Raised err)
    show ?thesis
    proof (cases "attempt = MAX_RETRIES")
      case True
      obtain y w2 where u: "update_link_status e (link_id link) ''failed'' (Some (str_of err)) w1 = (y, w2)"
        by (cases "update_link_status e (link_id link) ''failed'' (Some (str_of err)) w1")
      have "settles (db w1) (db w2)" by (rule settles_update[OF u]) simp
      with e1 have "settles (db w) (db w2)" by (rule settles_trans)
      moreover from Cons.prems t Raised True u have "w' = w2" by (cases y) auto
      ultimately show ?thesis by simp
    next
      case False
      with Cons.prems t Raised have "retry e link rest w1 = (r, w')" by simp
      from e1 Cons.IH[OF this] show ?thesis by (rule settles_trans)
    qed
  qed
qed

lemma settles_process_links:
  assumes "process_links e links st w = (r, w')"
  shows "settles (db w) (db w')"
  using assms
proof (induction links arbitrary: st w)
  case Nil
  then show ?case by (simp add: settles_refl)
next
  case (Cons link rest)
  obtain y w1 where u: "update_link_status e (link_id link) ''processing'' None w = (y, w1)"
    by (cases "update_link_status e (link_id link) ''processing'' None w")
  have e1: "settles (db w) (db w1)" by (rule settles_update[OF u]) simp
  show ?case
  proof (cases y)
    case (Inl err)
    with Cons.prems u e1 show ?thesis by simp
  next
    case (Inr x)
    obtain ok w2 where p: "process_single_link e link w1 = (ok, w2)"
      by (cases "process_single_link e link w1")
    have "settles (db w1) (db w2)" using p unfolding process_single_link_def by (rule settles_retry)
    with e1 have e2: "settles (db w) (db w2)" by (rule settles_trans)
    show ?thesis
    proof (cases ok)
      case (Inl err)
      with Cons.prems u Inr p e2 show ?thesis by simp
    next
      case okr: (Inr b)
      with Cons.prems u Inr p
      have "\<exists>st'. process_links e rest st' w2 = (r, w')" by (cases b) auto
      then obtain st' where "process_links e rest st' w2 = (r, w')" ..
      from e2 Cons.IH[OF this] show ?thesis by (rule settles_trans)
    qed
  qed
qed

lemma settles_collect:
  assumes "collect e groups st w = (r, w')"
  shows "settles (db w) (db w')"
  using assms
proof (induction groups arbitrary: st w)
  case Nil
  then show ?case by (simp add: settles_refl)
next
  case (Cons g rest)
  obtain domain links where g: "g = (domain, links)" by (cases g)
  obtain y w1 where p: "process_domain e domain links w = (y, w1)"
    by (cases "process_domain e domain links w")
  have e1: "settles (db w) (db w1)" using p unfolding process_domain_def by (rule settles_process_links)
  from Cons.prems g p have "\<exists>st'. collect e rest st' w1 = (r, w')" by (cases y) auto
  then obtain st' where "collect e rest st' w1 = (r, w')" ..
  from e1 Cons.IH[OF this] show ?case by (rule settles_trans)
qed

lemma db_read:
  assumes "get_connection e (\<lambda>now d. (f d, d)) w = (r, w')"
  shows "db w' = db w"
  using get_connection_db[OF assms] by auto

lemma settles_specific:
  assumes "process_specific_links e ids w = (r, w')"
  shows "settles (db w) (db w')"
proof -
  obtain y w1 where g: "get_links_by_ids e ids w = (y, w1)" by (cases "get_links_by_ids e ids w")
  have d1: "db w1 = db w" using g unfolding get_links_by_ids_def by (rule db_read)
  show ?thesis
  proof (cases y)
    case (Inl err)
    with assms g d1 show ?thesis by (simp add: process_specific_links_def settles_refl)
  next
    case (Inr links)
    show ?thesis
    proof (cases "links = []")
      case True
      with assms g d1 Inr show ?thesis by (simp add: process_specific_links_def settles_refl)
    next
      case False
      obtain s w2 where c: "process_domains e (group_by_domain e links) w1 = (s, w2)"
        by (cases "process_domains e (group_by_domain e links) w1")
      have "settles (db w1) (db w2)" using c unfolding process_domains_def by (rule settles_collect)
      moreover from assms g Inr False c have "w' = w2" by (simp add: process_specific_links_def)
      ultimately show ?thesis using d1 by simp
    qed
  qed
qed


section \<open>Counters\<close>

lemma process_links_counters:
  assumes "process_links e links st w = (Inr c, w')"
  shows "total c = total st \<and> skipped c = skipped st
       \<and> success c + failed c = success st + failed st + length links"
  using assms
proof (induction links arbitrary: st w)
  case Nil
  then show ?case by simp
next
  case (Cons link rest)
  obtain y w1 where u: "update_link_status e (link_id link) ''processing'' None w = (y, w1)"
    by (cases "update_link_status e (link_id link) ''processing'' None w")
  obtain ok w2 where p: "process_single_link e link w1 = (ok, w2)"
    by (cases "process_single_link e link w1")
  from Cons.prems u obtain x where y: "y = Inr x" by (cases y) auto
  from Cons.prems u y p obtain b where ok: "ok = Inr b" by (cases ok) auto
  show ?case
  proof (cases b)
    case True
    with Cons.prems u y p ok
    have "process_links e rest (st\<lparr>success := success st + 1\<rparr>) w2 = (Inr c, w')" by simp
    from Cons.IH[OF this] show ?thesis by simp
  next
    case False
    with Cons.prems u y p ok
    have "process_links e rest (st\<lparr>failed := failed st + 1\<rparr>) w2 = (Inr c, w')" by simp
    from Cons.IH[OF this] show ?thesis by simp
  qed
qed

lemma process_domain_balanced:
  assumes "process_domain e domain links w = (Inr c, w')"
  shows "total c = length links \<and> balanced c"
  using process_links_counters[OF assms[unfolded process_domain_def]]
  by (simp add: balanced_def)

lemma dict_set_new: "k \<notin> set (map fst d) \<Longrightarrow> dict_set k v d = d @ [(k, v)]"
  by (induction d) auto

lemma collect_sums:
  assumes "collect e groups st w = (st', w')"
      and "by_domain st = Some bd" and "sums_up st bd" and "list_all (\<lambda>(d, c). balanced c) bd"
      and "distinct (map fst groups)" and "set (map fst groups) \<inter> set (map fst bd) = {}"
  shows "\<exists>bd'. by_domain st' = Some bd' \<and> sums_up st' bd' \<and> list_all (\<lambda>(d, c). balanced c) bd'
            \<and> set (map fst bd') \<subseteq> set (map fst bd) \<union> set (map fst groups)"
  using assms
proof (induction groups arbitrary: st w bd)
  case Nil
  then show ?case by auto
next
  case (Cons g rest)
  obtain domain links where g: "g = (domain, links)" by (cases g)
  obtain y w1 where p: "process_domain e domain links w = (y, w1)"
    by (cases "process_domain e domain links w")
  from Cons.prems(5,6) g have fresh: "domain \<notin> set (map fst bd)" and d: "distinct (map fst rest)"
    and nin: "domain \<notin> set (map fst rest)" and disj: "set (map fst rest) \<inter> set (map fst bd) = {}"
    by auto
  show ?case
  proof (cases y)
    case (Inl err)
    with Cons.prems(1) g p have "collect e rest st w1 = (st', w')" by simp
    from Cons.IH[OF this Cons.prems(2,3,4) d disj] obtain bd' where
      "by_domain st' = Some bd'" "sums_up st' bd'" "list_all (\<lambda>(d, c). balanced c) bd'"
      and K: "set (map fst bd') \<subseteq> set (map fst bd) \<union> set (map fst rest)" by blast
    moreover from K have "set (map fst bd') \<subseteq> set (map fst bd) \<union> set (map fst (g # rest))"
      by (simp only: list.map list.set) blast
    ultimately show ?thesis by blast
  next
    case (Inr c)
    let ?bd = "bd @ [(domain, c)]"
    let ?st = "st\<lparr>by_domain := Some ?bd, total := total st + total c,
                success := success st + success c, failed := failed st + failed c,
                skipped := skipped st + skipped c\<rparr>"
    from Cons.prems(1,2) g p Inr fresh have c: "collect e rest ?st w1 = (st', w')"
      by (simp add: dict_set_new)
    have b: "by_domain ?st = Some ?bd" by simp
    have s: "sums_up ?st ?bd" using Cons.prems(3) by (simp add: sums_up_def)
    have bal: "list_all (\<lambda>(d, c). balanced c) ?bd"
      using Cons.prems(4) process_domain_balanced[OF p[unfolded Inr]] by simp
    have disj': "set (map fst rest) \<inter> set (map fst ?bd) = {}" using disj nin by auto
    from Cons.IH[OF c b s bal d disj'] obtain bd' where
      "by_domain st' = Some bd'" "sums_up st' bd'" "list_all (\<lambda>(d, c). balanced c) bd'"
      and K: "set (map fst bd') \<subseteq> set (map fst ?bd) \<union> set (map fst rest)" by blast
    moreover have "set (map fst ?bd) = insert domain (set (map fst bd))" by simp
    with K g have "set (map fst bd') \<subseteq> set (map fst bd) \<union> set (map fst (g # rest))"
      by (simp only: list.map list.set fst_conv) blast
    ultimately show ?thesis by blast
  qed
qed

lemma keys_dict_append:
  "map fst (dict_append k v d) = (if k \<in> set (map fst d) then map fst d else map fst d @ [k])"
proof (induction d)
  case Nil
  show ?case by simp
next
  case (Cons a d)
  obtain k' vs where a: "a = (k', vs)" by (cases a)
  show ?case using Cons a by (cases "k = k'") simp_all
qed

lemma keys_dict_set:
  "map fst (dict_set k v d) = (if k \<in> set (map fst d) then map fst d else map fst d @ [k])"
proof (induction d)
  case Nil
  show ?case by simp
next
  case (Cons a d)
  obtain k' v' where a: "a = (k', v')" by (cases a)
  show ?case using Cons a by (cases "k = k'") simp_all
qed

lemma distinct_foldl_dict_append:
  "distinct (map fst d) \<Longrightarrow> distinct (map fst (foldl (\<lambda>g l. dict_append (f l) l g) d links))"
  by (induction links arbitrary: d) (auto simp: keys_dict_append)

lemma distinct_group_by_domain: "distinct (map fst (group_by_domain e links))"
  unfolding group_by_domain_def by (rule distinct_foldl_dict_append) simp

lemma process_domains_sums:
  assumes "process_domains e (group_by_domain e links) w = (st, w')"
  shows "\<exists>bd. by_domain st = Some bd \<and> sums_up st bd \<and> list_all (\<lambda>(d, c). balanced c) bd"
proof -
  from collect_sums[OF assms[unfolded process_domains_def], of "[]"] distinct_group_by_domain[of e links]
  show ?thesis by (auto simp: sums_up_def)
qed

lemma collect_returned:
  assumes "by_domain st = Some bd" and "distinct (map fst groups)"
      and "set (map fst groups) \<inter> set (map fst bd) = {}"
  shows "by_domain (fst (collect e groups st w)) = Some (bd @ returned (worker_results e groups w))"
  using assms
proof (induction groups arbitrary: st w bd)
  case Nil
  then show ?case by (simp add: returned_def)
next
  case (Cons g rest)
  obtain domain links where g: "g = (domain, links)" by (cases g)
  obtain y w1 where p: "process_domain e domain links w = (y, w1)"
    by (cases "process_domain e domain links w")
  from Cons.prems(2,3) g have fresh: "domain \<notin> set (map fst bd)" and d: "distinct (map fst rest)"
    and nin: "domain \<notin> set (map fst rest)" and disj: "set (map fst rest) \<inter> set (map fst bd) = {}"
    by auto
  show ?case
  proof (cases y)
    case (Inl err)
    from Cons.IH[OF Cons.prems(1) d disj, of w1] g p Inl show ?thesis
      by (simp add: returned_def)
  next
    case (Inr c)
    let ?bd = "bd @ [(domain, c)]"
    let ?st = "st\<lparr>by_domain := Some ?bd, total := total st + total c,
                success := success st + success c, failed := failed st + failed c,
                skipped := skipped st + skipped c\<rparr>"
    have b: "by_domain ?st = Some ?bd" by simp
    have disj': "set (map fst rest) \<inter> set (map fst ?bd) = {}" using disj nin by auto
    from Cons.IH[OF b d disj', of w1] g p Inr Cons.prems(1) fresh show ?thesis
      by (simp add: returned_def dict_set_new)
  qed
qed

lemma process_domains_returned:
  "by_domain (fst (process_domains e (group_by_domain e links) w))
     = Some (returned (worker_results e (group_by_domain e links) w))"
  using collect_returned[of "\<lparr>total = 0, success = 0, failed = 0, skipped = 0, by_domain = Some []\<rparr>"
      "[]" "group_by_domain e links" e w] distinct_group_by_domain[of e links]
  by (simp add: process_domains_def)

lemma collect_append:
  "collect e (gs1 @ gs2) st w = (case collect e gs1 st w of (st1, w1) \<Rightarrow> collect e gs2 st1 w1)"
proof (induction gs1 arbitrary: st w)
  case Nil
  then show ?case by simp
next
  case (Cons g gs1)
  obtain domain links where g: "g = (domain, links)" by (cases g)
  obtain y w1 where p: "process_domain e domain links w = (y, w1)"
    by (cases "process_domain e domain links w")
  show ?case using g p Cons.IH by (cases y) simp_all
qed

lemma collect_keys:
  assumes "collect e groups st w = (st', w')" and "by_domain st = Some bd"
  shows "\<exists>bd'. by_domain st' = Some bd' \<and> set (map fst bd') \<subseteq> set (map fst bd) \<union> set (map fst groups)"
  using assms
proof (induction groups arbitrary: st w bd)
  case Nil
  then show ?case by auto
next
  case (Cons g rest)
  obtain domain links where g: "g = (domain, links)" by (cases g)
  obtain y w1 where p: "process_domain e domain links w = (y, w1)"
    by (cases "process_domain e domain links w")
  have ks: "set (map fst (dict_set domain c bd)) = insert domain (set (map fst bd))" for c
    unfolding keys_dict_set by (simp only: set_append list.set split: if_splits) blast
  show ?case
  proof (cases y)
    case (Inl err)
    with Cons.prems(1) g p have "collect e rest st w1 = (st', w')" by simp
    from Cons.IH[OF this Cons.prems(2)] obtain bd' where
      "by_domain st' = Some bd'"
      and K: "set (map fst bd') \<subseteq> set (map fst bd) \<union> set (map fst rest)" by blast
    moreover from K have "set (map fst bd') \<subseteq> set (map fst bd) \<union> set (map fst (g # rest))"
      by (simp only: list.map list.set) blast
    ultimately show ?thesis by blast
  next
    case (Inr c)
    let ?st = "st\<lparr>by_domain := Some (dict_set domain c bd), total := total st + total c,
                success := success st + success c, failed := failed st + failed c,
                skipped := skipped st + skipped c\<rparr>"
    from Cons.prems g p Inr have c: "collect e rest ?st w1 = (st', w')" by simp
    have "by_domain ?st = Some (dict_set domain c bd)" by simp
    from Cons.IH[OF c this] obtain bd' where
      "by_domain st' = Some bd'"
      and K: "set (map fst bd') \<subseteq> set (map fst (dict_set domain c bd)) \<union> set (map fst rest)" by blast
    moreover from K g ks[of c] have "set (map fst bd') \<subseteq> set (map fst bd) \<union> set (map fst (g # rest))"
      by (simp only: list.map list.set fst_conv) blast
    ultimately show ?thesis by blast
  qed
qed

section \<open>The store under the orchestrator\<close>





lemma settles_task_stats:
  assumes "update_task_run_stats e name n w = (r, w')"
  shows "news_links (db w') = news_links (db w)"
  using get_connection_db[OF assms[unfolded update_task_run_stats_def]] by auto





section \<open>The order of the status writes\<close>

lemma writes_of_append [simp]: "writes_of i (a @ b) = writes_of i a @ writes_of i b"
  by (simp add: writes_of_def)

lemma writes_of_Nil [simp]: "writes_of i [] = []"
  by (simp add: writes_of_def)

lemma writes_of_Cons [simp]:
  "writes_of i ((j, st) # log) = (if j = i then st # writes_of i log else writes_of i log)"
  by (simp add: writes_of_def)


lemma rounds_terminal:
  "rounds xs \<Longrightarrow> st \<in> set [''completed'', ''failed''] \<Longrightarrow> rounds (''processing'' # st # xs)"
  by auto


























section \<open>Registration and the scenario\<close>

lemma settles_urls:
  assumes "settles d d'" shows "map url (news_links d') = map url (news_links d)"
proof -
  have "list_all2 step xs ys \<Longrightarrow> map url ys = map url xs" for xs ys
    by (induction rule: list_all2_induct) (auto simp: step_def)
  with assms show ?thesis by (simp add: settles_def)
qed

lemma process_specific_links_returns:
  assumes "store_error e (store_ops w) = None"
  shows "\<exists>st w'. process_specific_links e ids w = (Inr st, w')"
  using assms
  by (auto simp: process_specific_links_def get_links_by_ids_def get_connection_def
           split: prod.splits)

lemma demo_valid:
  "is_valid_url ip6 ''http://a.com/1''" "is_valid_url ip6 ''http://a.com/1?utm_source=x''"
  "is_valid_url ip6 ''http://b.com/2''" "\<not> is_valid_url ip6 ''not a url''"
  by code_simp+

lemma demo_normalized:
  "normalize_url ip6 ''http://a.com/1'' = Inr ''http://a.com/1''"
  "normalize_url ip6 ''http://a.com/1?utm_source=x'' = Inr ''http://a.com/1''"
  "normalize_url ip6 ''http://b.com/2'' = Inr ''http://b.com/2''"
  by code_simp+

lemma demo_process_urls:
  assumes ok: "\<And>n. store_error e n = None"
      and neq: "sha256 e ''http://a.com/1'' \<noteq> sha256 e ''http://b.com/2''"
      and empty: "news_links (db w) = []"
  shows "\<exists>r w'. process_urls e demo_urls task w = (Inr r, w')
           \<and> new_links r = 2 \<and> duplicates r = 1 \<and> invalid r = 1
           \<and> map entry_url (urls r) = [''http://a.com/1'', ''http://b.com/2'']
           \<and> map original_url (urls r) = [''http://a.com/1'', ''http://b.com/2'']
           \<and> map url (news_links (db w')) = [''http://a.com/1'', ''http://b.com/2'']
           \<and> map status (news_links (db w')) = [''pending'', ''pending'']"
  using neq neq[symmetric]
  by (simp add: process_urls_def demo_urls_def demo_valid demo_normalized hash_url_def
        url_exists_def insert_news_link_def get_connection_def ok empty Let_def)

lemma foldl_dict_append_head:
  "foldl (\<lambda>d (name, v). dict_append name v d) ((k, vs) # d) ps
     = (k, vs @ map snd (filter (\<lambda>p. fst p = k) ps))
       # foldl (\<lambda>d (name, v). dict_append name v d) d (filter (\<lambda>p. fst p \<noteq> k) ps)"
proof (induction ps arbitrary: vs d)
  case Nil
  show ?case by simp
next
  case (Cons p ps)
  obtain name v where p: "p = (name, v)" by (cases p)
  show ?case using Cons.IH p by (cases "name = k") simp_all
qed

lemma same_key_pairs: "map (Pair k \<circ> snd) (filter (\<lambda>p. fst p = k) ps) = filter (\<lambda>p. fst p = k) ps"
  by (induction ps) auto

lemma flat_parse: "flat (foldl (\<lambda>d (name, v). dict_append name v d) [] ps) = grouped ps"
proof (induction ps rule: grouped.induct)
  case 1
  show ?case by (simp add: flat_def)
next
  case (2 k v ps)
  have "foldl (\<lambda>d (name, v). dict_append name v d) [] ((k, v) # ps)
      = (k, [v] @ map snd (filter (\<lambda>p. fst p = k) ps))
        # foldl (\<lambda>d (name, v). dict_append name v d) [] (filter (\<lambda>p. fst p \<noteq> k) ps)"
    by (simp add: foldl_dict_append_head)
  then show ?case using 2 by (simp add: flat_def same_key_pairs)
qed

lemma filter_dict_append:
  "filter (\<lambda>(k, vs). P k) (dict_append name v d)
     = (if P name then dict_append name v (filter (\<lambda>(k, vs). P k) d) else filter (\<lambda>(k, vs). P k) d)"
proof (induction d)
  case Nil
  show ?case by simp
next
  case (Cons a d)
  obtain k vs where a: "a = (k, vs)" by (cases a)
  show ?case using Cons a by (cases "name = k") auto
qed

lemma filter_parse:
  "filter (\<lambda>(k, vs). P k) (foldl (\<lambda>d (name, v). dict_append name v d) d ps)
     = foldl (\<lambda>d (name, v). dict_append name v d) (filter (\<lambda>(k, vs). P k) d) (filter (\<lambda>(k, v). P k) ps)"
proof (induction ps arbitrary: d)
  case Nil
  show ?case by simp
next
  case (Cons p ps)
  obtain name v where p: "p = (name, v)" by (cases p)
  show ?case using Cons.IH p by (simp add: filter_dict_append)
qed

lemma urlencode_flat: "urlencode d = encoded (flat d)"
proof -
  have "concat (map (\<lambda>(k, vs). map (\<lambda>v. quote_plus k @ ''='' @ quote_plus v) vs) d)
      = map (\<lambda>(k, v). quote_plus k @ ''='' @ quote_plus v) (flat d)"
    by (induction d) (auto simp: flat_def)
  then show ?thesis by (simp add: urlencode_def encoded_def)
qed

lemma urlencode_filtered:
  "urlencode (filter (\<lambda>(k, v). k \<notin> set tracking_params) (parse_qs qs)) = encoded (grouped (survivors qs))"
  by (simp add: urlencode_flat parse_qs_def survivors_def filter_parse flat_parse)

lemma grouped_distinct: "distinct (map fst ps) \<Longrightarrow> grouped ps = ps"
proof (induction ps)
  case Nil
  show ?case by simp
next
  case (Cons p ps)
  obtain k v where p: "p = (k, v)" by (cases p)
  from Cons.prems p have nk: "k \<notin> fst ` set ps" and d: "distinct (map fst ps)" by auto
  from nk have "filter (\<lambda>p. fst p = k) ps = []" "filter (\<lambda>p. fst p \<noteq> k) ps = ps"
    by (auto simp: filter_empty_conv filter_id_conv)
  with Cons.IH[OF d] p show ?case by simp
qed

lemma takeWhile_stop:
  assumes "\<forall>x\<in>set a. P x" and "r = [] \<or> \<not> P (hd r)"
  shows "takeWhile P (a @ r) = a" and "dropWhile P (a @ r) = r"
proof -
  from assms(2) have "takeWhile P r = []" "dropWhile P r = r" by (cases r; simp)+
  with assms(1) show "takeWhile P (a @ r) = a" "dropWhile P (a @ r) = r"
    by (simp_all add: takeWhile_append2 dropWhile_append2)
qed

lemma dropWhile_none: "\<forall>x\<in>set xs. \<not> P x \<Longrightarrow> dropWhile P xs = xs"
  by (cases xs) auto

lemma scheme_char_facts:
  assumes "c \<in> set scheme_chars"
  shows "32 < (of_char c :: nat) \<and> (of_char c :: nat) < 127" and "c \<noteq> CHR '':''"
  using assms
  by (auto simp: scheme_chars_def ascii_lowercase_def ascii_uppercase_def digits_def)

lemma plain_char_facts:
  assumes "32 < (of_char c :: nat) \<and> (of_char c :: nat) < 127"
  shows "\<not> C0_CONTROL_OR_SPACE c" and "c \<notin> set UNSAFE_URL_BYTES_TO_REMOVE"
  using assms by (auto simp: UNSAFE_URL_BYTES_TO_REMOVE_def C0_CONTROL_OR_SPACE_def)

lemma plain_append [simp]: "plain (a @ b) \<longleftrightarrow> plain a \<and> plain b"
  by (simp add: plain_def)

lemma plain_Cons [simp]:
  "plain (c # a) \<longleftrightarrow> (32 < (of_char c :: nat) \<and> (of_char c :: nat) < 127) \<and> plain a"
  by (simp add: plain_def)

lemma plain_Nil [simp]: "plain []"
  by (simp add: plain_def)

lemma plain_rev: "plain (rev s) \<longleftrightarrow> plain s"
  by (simp add: plain_def list_all_iff)

lemma plain_join: "list_all plain ps \<Longrightarrow> plain (join ''&'' ps)"
  by (induction "''&''" ps rule: join.induct) simp_all

lemma plain_scheme: "scheme_ok s \<Longrightarrow> plain s"
  by (auto simp: scheme_ok_def plain_def list_all_iff scheme_char_facts)

lemma plain_mk_url:
  assumes "scheme_ok s" "host_ok h" "path_ok p" "list_all param_ok ps"
  shows "plain (mk_url s h p ps)"
proof -
  from assms(4) have "list_all plain ps" by (simp add: list_all_iff param_ok_def)
  then have "plain (join ''&'' ps)" by (rule plain_join)
  with assms plain_scheme[OF assms(1)] show ?thesis
    by (simp add: mk_url_def host_ok_def path_ok_def)
qed

lemma whitespace_heads:
  "list_all (\<lambda>w. w \<noteq> [] \<and> \<not> (32 < (of_char (hd w) :: nat) \<and> (of_char (hd w) :: nat) < 127)) whitespace"
  "list_all (\<lambda>w. w \<noteq> [] \<and> \<not> (32 < (of_char (hd w) :: nat) \<and> (of_char (hd w) :: nat) < 127)) (map rev whitespace)"
  by (simp_all add: whitespace_def)

lemma no_prefix:
  assumes "plain s"
      and "list_all (\<lambda>w. w \<noteq> [] \<and> \<not> (32 < (of_char (hd w) :: nat) \<and> (of_char (hd w) :: nat) < 127)) ws"
  shows "find (\<lambda>w. w \<noteq> [] \<and> take (length w) s = w) ws = None"
proof -
  have "\<not> (w \<noteq> [] \<and> take (length w) s = w)" if "w \<in> set ws" for w
  proof
    assume a: "w \<noteq> [] \<and> take (length w) s = w"
    then obtain c w' where w: "w = c # w'" by (cases w) auto
    with a obtain s' where s: "s = c # s'" by (cases s) auto
    from that assms(2) w have "\<not> (32 < (of_char c :: nat) \<and> (of_char c :: nat) < 127)"
      by (auto simp: list_all_iff)
    with assms(1) s show False by (simp add: plain_def)
  qed
  then show ?thesis by (simp add: find_None_iff)
qed

lemma strip_plain: assumes "plain u" shows "strip u = u"
proof -
  have a: "strip_left whitespace u = u"
    by (subst strip_left.simps) (simp add: no_prefix[OF assms whitespace_heads(1)])
  from assms have "plain (rev u)" by (simp add: plain_rev)
  then have b: "strip_left (map rev whitespace) (rev u) = rev u"
    by (subst strip_left.simps) (simp add: no_prefix[OF _ whitespace_heads(2)])
  show ?thesis by (simp add: strip_def a b)
qed

lemma no_hash_join: "list_all param_ok ps \<Longrightarrow> CHR ''#'' \<notin> set (join ''&'' ps)"
  by (induction "''&''" ps rule: join.induct) (auto simp: param_ok_def list_all_iff)

lemma urlsplit_mk_url:
  assumes s: "scheme_ok s" and h: "host_ok h" and p: "path_ok p" and ps: "list_all param_ok ps"
  shows "urlsplit ip6 (mk_url s h p ps)
           = Inr \<lparr>scheme = lower s, netloc = h, path = p, query = join ''&'' ps, fragment = ''''\<rparr>"
proof -
  let ?q = "if ps = [] then [] else ''?'' @ join ''&'' ps"
  let ?rest = "p @ ?q"
  let ?u = "mk_url s h p ps"
  have pl: "plain ?u" using assms by (rule plain_mk_url)
  then have c0: "\<forall>x\<in>set ?u. \<not> C0_CONTROL_OR_SPACE x"
    by (auto simp: plain_def list_all_iff plain_char_facts)
  have u1: "lstrip C0_CONTROL_OR_SPACE ?u = ?u" unfolding lstrip_def using c0 by (rule dropWhile_none)
  have u2: "filter (\<lambda>c. c \<notin> set UNSAFE_URL_BYTES_TO_REMOVE) ?u = ?u"
    using pl by (auto simp: filter_id_conv plain_def list_all_iff plain_char_facts)
  have sc: "\<forall>x\<in>set s. x \<noteq> CHR '':''" using s by (auto simp: scheme_ok_def list_all_iff scheme_char_facts)
  have u_eq: "?u = s @ (CHR '':'' # ''//'' @ h @ ?rest)" by (simp add: mk_url_def)
  have pre: "before (CHR '':'') ?u = s" unfolding before_def u_eq
    by (rule takeWhile_stop(1)[OF sc]) simp
  have aft: "after (CHR '':'') ?u = ''//'' @ h @ ?rest" unfolding after_def u_eq
    by (subst takeWhile_stop(2)[OF sc]) simp_all
  have colon: "CHR '':'' \<in> set ?u" by (simp add: mk_url_def)
  have hd_u: "hd ?u = hd s" using s by (simp add: mk_url_def scheme_ok_def)
  have cond: "CHR '':'' \<in> set ?u \<and> s \<noteq> [] \<and> hd ?u \<in> set (ascii_lowercase @ ascii_uppercase)
                 \<and> list_all (\<lambda>c. c \<in> set scheme_chars) s"
    using s colon hd_u by (simp add: scheme_ok_def)
  have hc: "\<forall>x\<in>set h. x \<notin> set ''/?#''" using h by (auto simp: host_ok_def list_all_iff)
  have rest_start: "?rest = [] \<or> \<not> (hd ?rest \<notin> set ''/?#'')"
    using p by (cases p) (auto simp: path_ok_def)
  have nl: "splitnetloc (''//'' @ h @ ?rest) = (h, ?rest)"
    unfolding splitnetloc_def Let_def
    using takeWhile_stop[OF hc rest_start] by simp
  have nb: "CHR ''['' \<notin> set h" "CHR '']'' \<notin> set h" using h by (auto simp: host_ok_def list_all_iff)
  have nh: "CHR ''#'' \<notin> set ?rest" using p no_hash_join[OF ps] by (auto simp: path_ok_def list_all_iff)
  have pq: "\<forall>x\<in>set p. x \<noteq> CHR ''?''" using p by (auto simp: path_ok_def list_all_iff)
  have qsplit: "(if CHR ''?'' \<in> set ?rest then (before (CHR ''?'') ?rest, after (CHR ''?'') ?rest)
                 else (?rest, '''')) = (p, join ''&'' ps)"
  proof (cases "ps = []")
    case True
    with pq show ?thesis by auto
  next
    case False
    then have r: "?rest = p @ (CHR ''?'' # join ''&'' ps)" by simp
    have "before (CHR ''?'') ?rest = p" unfolding before_def r
      by (rule takeWhile_stop(1)[OF pq]) simp
    moreover have "after (CHR ''?'') ?rest = join ''&'' ps" unfolding after_def r
      by (subst takeWhile_stop(2)[OF pq]) simp_all
    ultimately show ?thesis using False by simp
  qed
  show ?thesis
    unfolding urlsplit_def u1 u2 Let_def pre aft
    using cond nl nb nh qsplit by simp
qed

lemma urlparse_mk_url:
  assumes "scheme_ok s" "host_ok h" "path_ok p" "list_all param_ok ps"
  shows "urlparse ip6 (mk_url s h p ps)
     = Inr \<lparr>scheme = lower s, netloc = h,
            path = fst (if lower s \<in> set uses_params \<and> CHR '';'' \<in> set p then splitparams p else (p, '''')),
            query = join ''&'' ps, fragment = '''',
            params = snd (if lower s \<in> set uses_params \<and> CHR '';'' \<in> set p then splitparams p else (p, ''''))\<rparr>"
  by (simp add: urlparse_def urlsplit_mk_url[OF assms] Let_def split: prod.splits)



lemma normalize_mk_url_Inr:
  assumes "scheme_ok s" "host_ok h" "path_ok p" "list_all param_ok ps"
  shows "\<exists>c. normalize_url ip6 (mk_url s h p ps) = Inr c"
  unfolding normalize_url_def Let_def strip_plain[OF plain_mk_url[OF assms]] urlparse_mk_url[OF assms]
  by simp












lemma scenario_execute_search:
  assumes ok: "\<And>n. store_error e n = None"
      and neq: "sha256 e ''http://a.com/1'' \<noteq> sha256 e ''http://b.com/2''"
      and empty: "news_links (db w) = []"
      and found: "search e prompt = Some demo_urls"
  shows "\<exists>r w'. execute_search e prompt task w = (Inr (Success r), w')
           \<and> new_links r = 2 \<and> duplicates r = 1 \<and> invalid r = 1 \<and> total_found r = 4
           \<and> map entry_url (urls r) = [''http://a.com/1'', ''http://b.com/2'']
           \<and> map url (news_links (db w')) = [''http://a.com/1'', ''http://b.com/2'']"
proof -
  from demo_process_urls[OF ok neq empty, of task] obtain res w1 where
    p: "process_urls e demo_urls task w = (Inr res, w1)"
    and c: "new_links res = 2" "duplicates res = 1" "invalid res = 1"
           "map entry_url (urls res) = [''http://a.com/1'', ''http://b.com/2'']"
    and u1: "map url (news_links (db w1)) = [''http://a.com/1'', ''http://b.com/2'']"
    by (elim exE conjE)
  obtain y w2 where t: "update_task_run_stats e task (new_links res) w1 = (y, w2)"
    by (cases "update_task_run_stats e task (new_links res) w1")
  have y: "y = Inr ()" using t ok by (auto simp: update_task_run_stats_def get_connection_def)
  have u2: "map url (news_links (db w2)) = [''http://a.com/1'', ''http://b.com/2'']"
    using settles_task_stats[OF t] u1 by simp
  let ?sr = "\<lparr>new_links = new_links res, duplicates = duplicates res, invalid = invalid res,
              urls = urls res, ok_task_name = task, total_found = length demo_urls,
              processing = None\<rparr>"
  show ?thesis
  proof (cases "AUTO_PROCESS_AFTER_SEARCH \<and> has_processor_worker e \<and> new_links res > 0")
    case False
    with found p t y have "execute_search e prompt task w = (Inr (Success ?sr), w2)"
      by (auto simp: execute_search_def Let_def)
    with c u2 show ?thesis by (simp add: demo_urls_def)
  next
    case True
    from process_specific_links_returns[OF ok] obtain st w3 where
      ps: "process_specific_links e (map entry_id (urls res)) w2 = (Inr st, w3)" by blast
    have u3: "map url (news_links (db w3)) = [''http://a.com/1'', ''http://b.com/2'']"
      using settles_urls[OF settles_specific[OF ps]] u2 by simp
    from found p t y True ps
    have "execute_search e prompt task w = (Inr (Success (?sr\<lparr>processing := Some st\<rparr>)), w3)"
      by (auto simp: execute_search_def Let_def)
    with c u3 show ?thesis by (simp add: demo_urls_def)
  qed
qed

section \<open>The retry loop\<close>

lemma attempt_range: "[1 ..< MAX_RETRIES + 1] = [1, 2]"
  by (simp add: MAX_RETRIES_def upt_rec)

lemma raising_processor_marks_failed:
  assumes "ai_processor e = Some process"
      and "process (ai_calls w) (url link) = Inl err1"
      and "process (ai_calls w @ [url link]) (url link) = Inl err2"
      and "store_error e (store_ops w) = None"
  shows "\<exists>w'. process_single_link e link w = (Inr False, w')
           \<and> ai_calls w' = ai_calls w @ [url link, url link]
           \<and> news_links (db w')
               = map (\<lambda>r. if link_id r = link_id link
                           then r\<lparr>status := ''failed'', error_message := Some (str_of err2),
                                  processed_at := Some (current_timestamp e (store_ops w))\<rparr>
                           else r) (news_links (db w))"
  unfolding process_single_link_def attempt_range
  using assms
  by (simp add: try_process_def MAX_RETRIES_def update_link_status_def get_connection_def Let_def)

lemma list_ex_mapI: "x \<in> set xs \<Longrightarrow> Q (f x) \<Longrightarrow> list_ex Q (map f xs)"
  by (auto simp: list_ex_iff)

lemma save_stores:
  assumes "store_error e (store_ops w) = None"
  shows "\<exists>w'. save_processed_content e i t c tc md w = (Inr (), w')
           \<and> news_links (db w') = news_links (db w) \<and> store_ops w' = Suc (store_ops w)
           \<and> ai_calls w' = ai_calls w
           \<and> list_ex (\<lambda>row. content_link_id row = i \<and> title row = t \<and> content row = c
                              \<and> translated_content row = tc) (processed_content (db w'))"
proof (cases "\<exists>r\<in>set (processed_content (db w)). content_link_id r = i")
  case True
  then obtain ra where ra: "ra \<in> set (processed_content (db w))" "content_link_id ra = i" by blast
  show ?thesis using assms True
    apply (simp add: save_processed_content_def get_connection_def Let_def)
    apply (rule list_ex_mapI[OF ra(1)])
    apply (simp add: ra(2))
    done
next
  case False
  then show ?thesis using assms
    by (simp add: save_processed_content_def get_connection_def Let_def)
qed

lemma first_success_completes:
  assumes p: "ai_processor e = Some process"
      and r: "process (ai_calls w) (url link) = Inr (Some r)" "result_success r"
      and ok: "store_error e (store_ops w) = None" "store_error e (Suc (store_ops w)) = None"
  shows "\<exists>w'. process_single_link e link w = (Inr True, w')
           \<and> ai_calls w' = ai_calls w @ [url link]
           \<and> news_links (db w')
               = map (\<lambda>r. if link_id r = link_id link
                           then r\<lparr>status := ''completed'', error_message := None,
                                  processed_at := Some (current_timestamp e (Suc (store_ops w)))\<rparr>
                           else r) (news_links (db w))
           \<and> list_ex (\<lambda>row. content_link_id row = link_id link \<and> title row = result_title r
                              \<and> content row = result_content r
                              \<and> translated_content row = result_translated_content r)
                 (processed_content (db w'))"
proof -
  let ?w1 = "w\<lparr>ai_calls := ai_calls w @ [url link]\<rparr>"
  have "store_error e (store_ops ?w1) = None" using ok(1) by simp
  from save_stores[OF this, of "link_id link" "result_title r" "result_content r"
      "result_translated_content r" "result_metadata r"]
  obtain w2 where s: "save_processed_content e (link_id link) (result_title r) (result_content r)
        (result_translated_content r) (result_metadata r) ?w1 = (Inr (), w2)"
    and w2: "news_links (db w2) = news_links (db w)" "store_ops w2 = Suc (store_ops w)"
       "ai_calls w2 = ai_calls w @ [url link]"
       "list_ex (\<lambda>row. content_link_id row = link_id link \<and> title row = result_title r
                              \<and> content row = result_content r
                              \<and> translated_content row = result_translated_content r)
                 (processed_content (db w2))"
    by auto
  show ?thesis
    unfolding process_single_link_def attempt_range
    using p r s w2 ok(2)
    by (simp add: try_process_def update_link_status_def get_connection_def Let_def)
qed

section \<open>Claims\<close>

subsection \<open>Retry loop\<close>

text \<open>
  Claim C1. A link whose Content Processor fails on every attempt is attempted exactly
  \<open>MAX_RETRIES\<close> times and then marked \<open>failed\<close> with the last error message. The code
  does so when the last attempt raises; when the attempts return an unsuccessful result, the
  loop ends without a write. Here the processor declines twice: it is called twice, the
  link is counted as failed, and its row keeps the status \<open>processing\<close> and no error
  message.
\<close>

theorem unsuccessful_result_stays_processing:
  "fst (process_specific_links (example_env (Some declining)) [1] (example_world [link_a]))
     = Inr \<lparr>total = 1, success = 0, failed = 1, skipped = 0,
            by_domain = Some [(''a.com'', \<lparr>total = 1, success = 0, failed = 1, skipped = 0\<rparr>)]\<rparr>
   \<and> news_links (db (snd (process_specific_links (example_env (Some declining)) [1] (example_world [link_a]))))
     = [example_link 1 ''http://a.com/1'' ''processing'']
   \<and> ai_calls (snd (process_specific_links (example_env (Some declining)) [1] (example_world [link_a])))
     = [''http://a.com/1'', ''http://a.com/1'']"
  by code_simp

subsection \<open>Isolation of domains\<close>

text \<open>
  Claim C2, as stated: a domain whose worker raises still yields a failure entry in the
  aggregate. Here the store fails on the first write for \<open>a.com\<close>: the aggregate holds
  the entry of \<open>b.com\<close> only, and no failure is counted.
\<close>

theorem failing_domain_has_no_entry:
  "fst (process_specific_links (flaky_store_env 1) [1, 2] (example_world [link_a, link_b]))
     = Inr \<lparr>total = 1, success = 1, failed = 0, skipped = 0,
            by_domain = Some [(''b.com'', \<lparr>total = 1, success = 1, failed = 0, skipped = 0\<rparr>)]\<rparr>"
  by code_simp

text \<open>
  Claim C2, amended. When the worker of a domain raises, the domains after it are processed
  as they would be from the world the worker left, with the statistics gathered before it:
  the failing domain adds no entry to \<open>by_domain\<close> and nothing to the totals.
\<close>

theorem failing_domain_adds_nothing:
  assumes "process_domains e gs1 w = (st1, w1)"
      and "process_domain e d ls w1 = (Inl err, w2)"
      and "d \<notin> set (map fst (gs1 @ gs2))"
  shows "process_domains e (gs1 @ (d, ls) # gs2) w = collect e gs2 st1 w2
       \<and> (\<exists>bd. by_domain (fst (process_domains e (gs1 @ (d, ls) # gs2) w)) = Some bd \<and> d \<notin> set (map fst bd))"
proof -
  have eq: "process_domains e (gs1 @ (d, ls) # gs2) w = collect e gs2 st1 w2"
    using assms(1,2) by (simp add: process_domains_def collect_append)
  obtain st' w' where r: "process_domains e (gs1 @ (d, ls) # gs2) w = (st', w')"
    by (cases "process_domains e (gs1 @ (d, ls) # gs2) w")
  from collect_keys[OF assms(1)[unfolded process_domains_def]]
  obtain bd1 where b1: "by_domain st1 = Some bd1" "set (map fst bd1) \<subseteq> set (map fst gs1)" by auto
  from r eq have "collect e gs2 st1 w2 = (st', w')" by simp
  from collect_keys[OF this b1(1)] obtain bd' where "by_domain st' = Some bd'"
     "set (map fst bd') \<subseteq> set (map fst bd1) \<union> set (map fst gs2)" by auto
  then have "d \<notin> set (map fst bd')" using b1(2) assms(3) by (simp only: map_append set_append) blast
  with \<open>by_domain st' = Some bd'\<close> r eq show ?thesis by simp
qed

theorem failing_domain_adds_nothing_witness:
  "process_domains (flaky_store_env 0) ([] @ (''a.com'', [link_a]) # [(''b.com'', [link_b])])
      (example_world [link_a, link_b])
    = collect (flaky_store_env 0) [(''b.com'', [link_b])]
        \<lparr>total = 0, success = 0, failed = 0, skipped = 0, by_domain = Some []\<rparr>
        (snd (process_domain (flaky_store_env 0) ''a.com'' [link_a] (example_world [link_a, link_b])))
   \<and> (\<exists>bd. by_domain (fst (process_domains (flaky_store_env 0)
               ([] @ (''a.com'', [link_a]) # [(''b.com'', [link_b])])
               (example_world [link_a, link_b]))) = Some bd
          \<and> ''a.com'' \<notin> set (map fst bd))"
proof -
  have h1: "process_domains (flaky_store_env 0) [] (example_world [link_a, link_b])
     = (\<lparr>total = 0, success = 0, failed = 0, skipped = 0, by_domain = Some []\<rparr>,
        example_world [link_a, link_b])"
    by (simp add: process_domains_def)
  have h2: "process_domain (flaky_store_env 0) ''a.com'' [link_a] (example_world [link_a, link_b])
     = (Inl (Exception ''connection refused''),
        snd (process_domain (flaky_store_env 0) ''a.com'' [link_a] (example_world [link_a, link_b])))"
    by code_simp
  have h3: "''a.com'' \<notin> set (map fst ([] @ [(''b.com'', [link_b])]))" by simp
  from failing_domain_adds_nothing[OF h1 h2 h3] show ?thesis .
qed

subsection \<open>Status transitions\<close>




subsection \<open>Canonical URLs\<close>

text \<open>
  Claim C5. The normalization example of the specification: the tracking parameter and the
  fragment are removed, scheme and host are in lower case, the leading \<open>www.\<close> and the
  trailing slash are gone, and the path keeps its case.
\<close>

theorem normalize_example:
  "normalize_url ip6 ''HTTP://WWW.Example.com/Path/?utm_source=x&id=7#frag''
     = Inr ''http://example.com/Path?id=7''"
  by code_simp

text \<open>
  Claim C7. \<open>extract_domain\<close> is to strip a leading \<open>www.\<close> only. It removes every
  occurrence of \<open>www.\<close> in the host, so the host \<open>awww.example.com\<close> loses letters from
  its middle.
\<close>

theorem extract_domain_removes_inner_www:
  "extract_domain ip6 ''http://awww.example.com/x'' = ''aexample.com''"
  by code_simp

subsection \<open>Discovery failure\<close>

text \<open>
  Claim C9. When the Discovery Client fails for the prompt of an active task, \<open>run_task\<close>
  returns the failure result and the store is what it was: the only operation on it was the
  reading of the task.
\<close>

theorem discovery_failure_changes_nothing:
  assumes "get_query_task e name w = (Inr (Some task), w1)" and "is_active task"
      and "search e (prompt_template task) = None"
  shows "run_task e name w = (Inr (Failure ''Search failed'' (Some name)), w1) \<and> db w1 = db w"
  using assms db_read[OF assms(1)[unfolded get_query_task_def]]
  by (simp add: run_task_def execute_search_def)

theorem discovery_failure_changes_nothing_witness:
  "run_task (example_env None) ''demo'' demo_world
     = (Inr (Failure ''Search failed'' (Some ''demo'')), demo_world\<lparr>store_ops := 1\<rparr>)
   \<and> db (demo_world\<lparr>store_ops := 1\<rparr>) = db demo_world"
proof -
  have h1: "get_query_task (example_env None) ''demo'' demo_world
      = (Inr (Some demo_task), demo_world\<lparr>store_ops := 1\<rparr>)"
    by (simp add: get_query_task_def get_connection_def example_env_def demo_world_def demo_task_def)
  have h2: "is_active demo_task" by (simp add: demo_task_def)
  have h3: "search (example_env None) (prompt_template demo_task) = None"
    by (simp add: example_env_def)
  from discovery_failure_changes_nothing[OF h1 h2 h3] show ?thesis .
qed

subsection \<open>Statistics\<close>

text \<open>
  Claim C10. The counters a domain worker returns add up: \<open>total\<close> is the number of links,
  \<open>skipped\<close> is 0, and every link is counted once, as a success or as a failure. The
  aggregate of \<open>_process_domains\<close> holds under \<open>by_domain\<close> the counters of the workers that
  returned, each under its domain and in the order they were read, and nothing else; its
  totals are the sums over these entries.
\<close>

theorem counters_add_up:
  "(process_domain e domain links w = (Inr c, w')
      \<longrightarrow> total c = length links \<and> skipped c = 0 \<and> success c + failed c + skipped c = total c)
   \<and> (process_domains e (group_by_domain e links') w = (st, w'')
      \<longrightarrow> by_domain st = Some (returned (worker_results e (group_by_domain e links') w))
          \<and> sums_up st (returned (worker_results e (group_by_domain e links') w))
          \<and> list_all (\<lambda>(d, c). balanced c) (returned (worker_results e (group_by_domain e links') w)))"
proof -
  have "by_domain st = Some (returned (worker_results e (group_by_domain e links') w))
          \<and> sums_up st (returned (worker_results e (group_by_domain e links') w))
          \<and> list_all (\<lambda>(d, c). balanced c) (returned (worker_results e (group_by_domain e links') w))"
    if a: "process_domains e (group_by_domain e links') w = (st, w'')"
  proof -
    from process_domains_returned[of e links' w] a
    have b: "by_domain st = Some (returned (worker_results e (group_by_domain e links') w))" by simp
    from process_domains_sums[OF a] b show ?thesis by auto
  qed
  then show ?thesis
    using process_domain_balanced[of e domain links w c w'] by (auto simp: balanced_def)
qed

theorem counters_add_up_witness:
  "total \<lparr>total = 1, success = 1, failed = 0, skipped = 0\<rparr> = length [link_a]
   \<and> worker_results (flaky_store_env 3) (group_by_domain (flaky_store_env 3) [link_a, link_b])
        (example_world [link_a, link_b])
       = [(''a.com'', Inr \<lparr>total = 1, success = 1, failed = 0, skipped = 0\<rparr>),
          (''b.com'', Inl (Exception ''connection refused''))]
   \<and> by_domain (fst (process_domains (flaky_store_env 3)
                 (group_by_domain (flaky_store_env 3) [link_a, link_b])
                 (example_world [link_a, link_b])))
       = Some [(''a.com'', \<lparr>total = 1, success = 1, failed = 0, skipped = 0\<rparr>)]
   \<and> sums_up (fst (process_domains (flaky_store_env 3)
                 (group_by_domain (flaky_store_env 3) [link_a, link_b])
                 (example_world [link_a, link_b])))
        [(''a.com'', \<lparr>total = 1, success = 1, failed = 0, skipped = 0\<rparr>)]"
proof -
  have h: "process_domain (flaky_store_env 3) ''a.com'' [link_a] (example_world [link_a, link_b])
     = (Inr \<lparr>total = 1, success = 1, failed = 0, skipped = 0\<rparr>,
        snd (process_domain (flaky_store_env 3) ''a.com'' [link_a] (example_world [link_a, link_b])))"
    by code_simp
  have r: "worker_results (flaky_store_env 3) (group_by_domain (flaky_store_env 3) [link_a, link_b])
        (example_world [link_a, link_b])
       = [(''a.com'', Inr \<lparr>total = 1, success = 1, failed = 0, skipped = 0\<rparr>),
          (''b.com'', Inl (Exception ''connection refused''))]"
    by code_simp
  from counters_add_up[of "flaky_store_env 3" "''a.com''" "[link_a]"
      "example_world [link_a, link_b]" "\<lparr>total = 1, success = 1, failed = 0, skipped = 0\<rparr>"
      "snd (process_domain (flaky_store_env 3) ''a.com'' [link_a] (example_world [link_a, link_b]))"
      "[link_a, link_b]"
      "fst (process_domains (flaky_store_env 3)
                 (group_by_domain (flaky_store_env 3) [link_a, link_b])
                 (example_world [link_a, link_b]))"
      "snd (process_domains (flaky_store_env 3)
                 (group_by_domain (flaky_store_env 3) [link_a, link_b])
                 (example_world [link_a, link_b]))"] h r
  show ?thesis by (simp add: returned_def)
qed

subsection \<open>Registration\<close>



subsection \<open>End-to-end scenario\<close>

text \<open>
  Claim C6. A run of an active task against an empty store that does not raise, with a hash
  that tells the two canonical URLs apart: the four URLs of the scenario give two new links, one duplicate and
  one invalid URL, \<open>total_found\<close> is 4, and the store holds \<open>http://a.com/1\<close> and
  \<open>http://b.com/2\<close>, whether or not the new links are processed afterwards.
\<close>

theorem end_to_end_scenario:
  assumes ok: "\<And>n. store_error e n = None"
      and neq: "sha256 e ''http://a.com/1'' \<noteq> sha256 e ''http://b.com/2''"
      and empty: "news_links (db w) = []"
      and task: "find (\<lambda>t. task_name t = name) (query_tasks (db w)) = Some task"
      and active: "is_active task"
      and found: "search e (prompt_template task) = Some demo_urls"
  shows "\<exists>r w'. run_task e name w = (Inr (Success r), w')
           \<and> new_links r = 2 \<and> duplicates r = 1 \<and> invalid r = 1 \<and> total_found r = 4
           \<and> map entry_url (urls r) = [''http://a.com/1'', ''http://b.com/2'']
           \<and> map url (news_links (db w')) = [''http://a.com/1'', ''http://b.com/2'']"
proof -
  let ?w1 = "w\<lparr>db := db w, store_ops := Suc (store_ops w)\<rparr>"
  have g: "get_query_task e name w = (Inr (Some task), ?w1)"
    using ok task by (simp add: get_query_task_def get_connection_def)
  have r: "run_task e name w = execute_search e (prompt_template task) name ?w1"
    using g active by (simp add: run_task_def)
  have "news_links (db ?w1) = []" using empty by simp
  from scenario_execute_search[OF ok neq this found] r show ?thesis by simp
qed

theorem end_to_end_scenario_witness:
  "\<exists>r w'. run_task demo_env ''demo'' demo_world = (Inr (Success r), w')
           \<and> new_links r = 2 \<and> duplicates r = 1 \<and> invalid r = 1 \<and> total_found r = 4
           \<and> map entry_url (urls r) = [''http://a.com/1'', ''http://b.com/2'']
           \<and> map url (news_links (db w')) = [''http://a.com/1'', ''http://b.com/2'']"
proof (rule end_to_end_scenario)
  show "store_error demo_env n = None" for n by (simp add: demo_env_def example_env_def)
  show "sha256 demo_env ''http://a.com/1'' \<noteq> sha256 demo_env ''http://b.com/2''"
    by (simp add: demo_env_def example_env_def)
  show "news_links (db demo_world) = []" by (simp add: demo_world_def)
  show "find (\<lambda>t. task_name t = ''demo'') (query_tasks (db demo_world)) = Some demo_task"
    by (simp add: demo_world_def demo_task_def)
  show "is_active demo_task" by (simp add: demo_task_def)
  show "search demo_env (prompt_template demo_task) = Some demo_urls" by (simp add: demo_env_def)
qed

subsection \<open>Order of the query parameters\<close>

text \<open>
  Claim C8, as stated: the surviving parameters keep their relative order. \<open>parse_qs\<close>
  collects the values under their names, so a repeated name pulls its later values forward:
  \<open>a=1&b=2&a=3\<close> becomes \<open>a=1&a=3&b=2\<close>.
\<close>

theorem repeated_name_is_moved:
  "normalize_url (\<lambda>h. False) ''http://a.com/p?a=1&b=2&a=3'' = Inr ''http://a.com/p?a=1&a=3&b=2''"
  by code_simp

text \<open>
  Claim C8, amended. The query of the normalized URL is the encoding of the surviving
  parameters grouped by name: the names in the order of their first occurrence, the values
  of a name in their original order. When no surviving name occurs twice, that is the
  original order. The survivors are the parameters that \<open>parse_qsl\<close> reads (an item with an
  empty value is not one) and whose name is not a tracking parameter.
\<close>

theorem surviving_parameters_are_grouped:
  assumes "urlparse ip6 (strip u) = Inr parsed"
  shows "(\<exists>sch nl pth. normalize_url ip6 u
            = Inr (urlunparse (sch, nl, pth, params parsed,
                               encoded (grouped (survivors (query parsed))), '''')))
       \<and> (distinct (map fst (survivors (query parsed)))
            \<longrightarrow> grouped (survivors (query parsed)) = survivors (query parsed))"
proof -
  have "encoded (grouped (survivors (query parsed))) = []"
    if "filter (\<lambda>(k, v). k \<notin> set tracking_params) (parse_qs (query parsed)) = []"
    using urlencode_filtered[of "query parsed"] that by (simp add: urlencode_def)
  then show ?thesis
    using assms by (auto simp: normalize_url_def Let_def urlencode_filtered grouped_distinct)
qed

theorem surviving_parameters_are_grouped_witness:
  "(\<exists>sch nl pth. normalize_url (\<lambda>h. False) ''http://a.com/p?b=2&utm_source=x&a=1''
        = Inr (urlunparse (sch, nl, pth, '''', encoded (grouped (survivors ''b=2&utm_source=x&a=1'')), '''')))
   \<and> grouped (survivors ''b=2&utm_source=x&a=1'') = survivors ''b=2&utm_source=x&a=1''"
proof -
  have h: "urlparse (\<lambda>h. False) (strip ''http://a.com/p?b=2&utm_source=x&a=1'')
     = Inr \<lparr>scheme = ''http'', netloc = ''a.com'', path = ''/p'', query = ''b=2&utm_source=x&a=1'',
            fragment = '''', params = ''''\<rparr>"
    by code_simp
  have d: "distinct (map fst (survivors ''b=2&utm_source=x&a=1''))" by code_simp
  have t: "(\<exists>sch nl pth. normalize_url (\<lambda>h. False) ''http://a.com/p?b=2&utm_source=x&a=1''
        = Inr (urlunparse (sch, nl, pth, [], encoded (grouped (survivors ''b=2&utm_source=x&a=1'')), [])))
   \<and> (distinct (map fst (survivors ''b=2&utm_source=x&a=1''))
        \<longrightarrow> grouped (survivors ''b=2&utm_source=x&a=1'') = survivors ''b=2&utm_source=x&a=1'')"
    using surviving_parameters_are_grouped[OF h] by simp
  from t d show ?thesis by blast
qed

end
